theory Spec2Isabelle
  imports Main "HOL-Library.Sublist"
begin

section \<open>Text primitives used by the scripts\<close>

text \<open>
  The scripts treat a test file as one Python \<open>str\<close>. A file content is modelled as a
  \<open>string\<close> (a list of characters with code points below 256). The character classes
  are the ones Python's \<open>re\<close> and \<open>str\<close> use on such code points.
\<close>

definition is_space :: "char \<Rightarrow> bool" where
  \<comment> \<open>\<open>\s\<close> of a str pattern and \<open>str.isspace\<close>: TAB..CR, FS..US, space, NEL, NBSP.\<close>
  "is_space c =
     (let n = (of_char c :: nat)
      in (9 \<le> n \<and> n \<le> 13) \<or> (28 \<le> n \<and> n \<le> 32) \<or> n = 133 \<or> n = 160)"

definition is_ident_start :: "char \<Rightarrow> bool" where
  \<comment> \<open>the class \<open>[a-zA-Z_]\<close>\<close>
  "is_ident_start c =
     (let n = (of_char c :: nat)
      in (97 \<le> n \<and> n \<le> 122) \<or> (65 \<le> n \<and> n \<le> 90) \<or> n = 95)"

definition is_ident_char :: "char \<Rightarrow> bool" where
  \<comment> \<open>the class \<open>[a-zA-Z0-9_]\<close>\<close>
  "is_ident_char c =
     (let n = (of_char c :: nat)
      in (97 \<le> n \<and> n \<le> 122) \<or> (65 \<le> n \<and> n \<le> 90) \<or> (48 \<le> n \<and> n \<le> 57) \<or> n = 95)"

definition str_in :: "string \<Rightarrow> string \<Rightarrow> bool" where
  \<comment> \<open>Python's \<open>sub in s\<close> on strings\<close>
  "str_in sub s = sublist sub s"

fun str_replace :: "string \<Rightarrow> string \<Rightarrow> string \<Rightarrow> string" where
  \<comment> \<open>\<open>s.replace(old, new)\<close>: every non-overlapping occurrence, left to right\<close>
  "str_replace old new [] = (if old = [] then new else [])"
| "str_replace old new (c # cs) =
     (if old = [] then new @ c # str_replace old new cs
      else if prefix old (c # cs)
      then new @ str_replace old new (drop (length old - 1) cs)
      else c # str_replace old new cs)"

fun split_on :: "char \<Rightarrow> string \<Rightarrow> string list" where
  \<comment> \<open>\<open>s.split(sep)\<close> for a one-character separator\<close>
  "split_on sep [] = [[]]"
| "split_on sep (c # cs) =
     (if c = sep then [] # split_on sep cs
      else (case split_on sep cs of
              [] \<Rightarrow> [[c]]
            | l # ls \<Rightarrow> (c # l) # ls))"

fun join_with :: "string \<Rightarrow> string list \<Rightarrow> string" where
  \<comment> \<open>\<open>sep.join(lines)\<close>\<close>
  "join_with sep [] = []"
| "join_with sep [l] = l"
| "join_with sep (l # ls) = l @ sep @ join_with sep ls"

definition count_char :: "char \<Rightarrow> string \<Rightarrow> int" where
  \<comment> \<open>\<open>line.count(c)\<close> for a one-character argument\<close>
  "count_char c s = int (length (filter (\<lambda>x. x = c) s))"

definition lstrip :: "string \<Rightarrow> string" where
  \<comment> \<open>\<open>s.lstrip()\<close>\<close>
  "lstrip s = dropWhile is_space s"

fun universal_newlines :: "string \<Rightarrow> string" where
  \<comment> \<open>what a file opened in text mode gives to \<open>read\<close>: a carriage return followed
      by a line feed, and a carriage return alone, become one line feed\<close>
  "universal_newlines [] = []"
| "universal_newlines [c] = [if c = CHR 0x0D then CHR ''\<newline>'' else c]"
| "universal_newlines (c # d # cs) =
     (if c = CHR 0x0D
      then (if d = CHR ''\<newline>'' then CHR ''\<newline>'' # universal_newlines cs
            else CHR ''\<newline>'' # universal_newlines (d # cs))
      else c # universal_newlines (d # cs))"

section \<open>Regular-expression substitution\<close>

text \<open>
  \<open>re.sub(pattern, repl, content)\<close> scans the content from left to right. At each
  position the pattern is tried on the rest of the content; a match is replaced and the
  scan continues behind it, otherwise one character is copied. None of the patterns of
  these scripts has a look-behind or an anchor, so whether a pattern matches at a
  position, and how far, is a function of the text from that position on: a matcher
  returns the length of the match and the groups the replacement uses. An empty match
  is replaced and followed by the next character, as Python (3.7 and later) does.
\<close>

fun re_sub :: "(string \<Rightarrow> (nat \<times> 'g) option) \<Rightarrow> (string \<Rightarrow> 'g \<Rightarrow> string) \<Rightarrow> string \<Rightarrow> string" where
  "re_sub m r [] = (case m [] of None \<Rightarrow> [] | Some (n, g) \<Rightarrow> r [] g)"
| "re_sub m r (c # cs) =
     (case m (c # cs) of
        None \<Rightarrow> c # re_sub m r cs
      | Some (n, g) \<Rightarrow>
          if n = 0 then r [] g @ c # re_sub m r cs
          else r (take n (c # cs)) g @ re_sub m r (drop (n - 1) cs))"

fun re_search :: "(string \<Rightarrow> (nat \<times> 'g) option) \<Rightarrow> string \<Rightarrow> bool" where
  \<comment> \<open>\<open>re.search(pattern, content) is not None\<close>: the pattern matches at some position\<close>
  "re_search m [] = (m [] \<noteq> None)"
| "re_search m (c # cs) = (m (c # cs) \<noteq> None \<or> re_search m cs)"

section \<open>fix_fetch_mocks.py: the rewrite of the content\<close>

definition import_pattern :: "string \<Rightarrow> (nat \<times> unit) option" where
  \<comment> \<open>\<open>(import\s+{[^}]*setupAuthMocks[^}]*})\<close>. The brace is not a white-space
      character, so \<open>\s+\<close> takes the whole run of white space; the two \<open>[^}]*\<close> and the
      closing brace make the match end at the first closing brace, with
      \<open>setupAuthMocks\<close> somewhere before it.\<close>
  "import_pattern s =
     (if prefix ''import'' s then
        (let r1 = drop 6 s; ws = takeWhile is_space r1; r2 = dropWhile is_space r1
         in if ws \<noteq> [] \<and> prefix ''{'' r2 then
              (let body = takeWhile (\<lambda>c. c \<noteq> CHR ''}'') (drop 1 r2);
                   r3 = dropWhile (\<lambda>c. c \<noteq> CHR ''}'') (drop 1 r2)
               in if str_in ''setupAuthMocks'' body \<and> r3 \<noteq> []
                  then Some (6 + length ws + 1 + length body + 1, ())
                  else None)
            else None)
      else None)"

definition add_wrap_to_import :: "string \<Rightarrow> unit \<Rightarrow> string" where
  \<comment> \<open>group 1 is the whole match\<close>
  "add_wrap_to_import import_line g =
     (if \<not> str_in ''wrapFetchMock'' import_line
      then str_replace ''setupAuthMocks'' ''setupAuthMocks, wrapFetchMock'' import_line
      else import_line)"

definition followed_by_wrap :: "string \<Rightarrow> bool" where
  \<comment> \<open>the look-ahead \<open>\s*wrapFetchMock\<close>: \<open>w\<close> is not white space, so \<open>\s*\<close> takes
      the whole run\<close>
  "followed_by_wrap s = prefix ''wrapFetchMock'' (dropWhile is_space s)"

definition reset_pattern :: "string \<Rightarrow> (nat \<times> unit) option" where
  \<comment> \<open>\<open>mockFetch\.mockReset\(\);(?!\s*wrapFetchMock)\<close>\<close>
  "reset_pattern s =
     (if prefix ''mockFetch.mockReset();'' s \<and> \<not> followed_by_wrap (drop 22 s)
      then Some (22, ()) else None)"

definition add_wrap_after_reset :: "string \<Rightarrow> unit \<Rightarrow> string" where
  "add_wrap_after_reset reset_line g = reset_line @ ''\<newline>    wrapFetchMock(mockFetch);''"

definition add_wrap_rule :: "string \<Rightarrow> string" where
  \<comment> \<open>line 80: \<open>content = re.sub(pattern, add_wrap_after_reset, content)\<close>\<close>
  "add_wrap_rule content = re_sub reset_pattern add_wrap_after_reset content"

definition add_wrap_fetch_mock :: "string \<Rightarrow> string" where
  \<comment> \<open>lines 53 to 80 of \<open>update_test_file\<close>: the import rule, then the reset rule\<close>
  "add_wrap_fetch_mock content =
     add_wrap_rule (re_sub import_pattern add_wrap_to_import content)"

section \<open>fix_mock_responses.py: the rewrite of the content\<close>

definition match_call :: "string \<Rightarrow> string \<Rightarrow> (nat \<times> string) option" where
  \<comment> \<open>\<open>lit([a-zA-Z_][a-zA-Z0-9_]*)\)\)\<close> for a literal text \<open>lit\<close>. A closing
      parenthesis is not a character of the class, so the group is the whole run of
      class characters; the group is returned with the length of the match.\<close>
  "match_call lit s =
     (if prefix lit s then
        (let rest = drop (length lit) s; array_name = takeWhile is_ident_char rest
         in if array_name \<noteq> [] \<and> is_ident_start (hd array_name)
               \<and> prefix ''))'' (drop (length array_name) rest)
            then Some (length lit + length array_name + 2, array_name)
            else None)
      else None)"

definition pattern1 :: "string \<Rightarrow> (nat \<times> string) option" where
  \<comment> \<open>\<open>mockFetch\.mockResolvedValue\(createMockResponse\(([a-zA-Z_][a-zA-Z0-9_]*)\)\)\<close>\<close>
  "pattern1 = match_call ''mockFetch.mockResolvedValue(createMockResponse(''"

definition replace_simple :: "string \<Rightarrow> string \<Rightarrow> string" where
  "replace_simple whole array_name =
     (if array_name = ''null'' \<or> array_name = ''undefined'' \<or> prefix ''{'' array_name
      then whole
      else ''mockFetch.mockResolvedValue(createMockResponse({ content: '' @ array_name
           @ '', totalElements: '' @ array_name
           @ ''.length, totalPages: 1, size: 1000, number: 0 }))'')"

definition pattern2 :: "string \<Rightarrow> (nat \<times> string) option" where
  \<comment> \<open>\<open>Promise\.resolve\(createMockResponse\(([a-zA-Z_][a-zA-Z0-9_]*)\)\)\<close>\<close>
  "pattern2 = match_call ''Promise.resolve(createMockResponse(''"

definition replace_promise :: "string \<Rightarrow> string \<Rightarrow> string" where
  "replace_promise whole array_name =
     (if array_name = ''null'' \<or> array_name = ''undefined'' \<or> prefix ''{'' array_name
      then whole
      else ''Promise.resolve(createMockResponse({ content: '' @ array_name
           @ '', totalElements: '' @ array_name
           @ ''.length, totalPages: 1, size: 1000, number: 0 }))'')"

definition wrap_array_in_paginated_response :: "string \<Rightarrow> string" where
  "wrap_array_in_paginated_response content =
     (let content = re_sub pattern1 replace_simple content;
          content = re_sub pattern2 replace_promise content
      in content)"

section \<open>fix_setup_auth_mocks.py: the rewrite of the content\<close>

definition before_each_pattern ::
  "(string \<Rightarrow> nat option) \<Rightarrow> string \<Rightarrow> (nat \<times> string \<times> string \<times> string) option" where
  \<comment> \<open>\<open>(beforeEach\(\(\) => \{)\s*(\n\s*)(third)\<close>, where \<open>third\<close> starts with a
      character that is not white space: the white space behind the brace is taken
      whole, it must hold a line feed, and group 2 starts at its last line feed.
      The groups 1, 2 and 3 are returned.\<close>
  "before_each_pattern third s =
     (if prefix ''beforeEach(() => {'' s then
        (let r1 = drop 18 s; ws = takeWhile is_space r1; r2 = dropWhile is_space r1
         in if CHR ''\<newline>'' \<in> set ws then
              (case third r2 of
                 None \<Rightarrow> None
               | Some k \<Rightarrow>
                   Some (18 + length ws + k,
                         ''beforeEach(() => {'',
                         CHR ''\<newline>'' # rev (takeWhile (\<lambda>c. c \<noteq> CHR ''\<newline>'') (rev ws)),
                         take k r2))
            else None)
      else None)"

definition third1 :: "string \<Rightarrow> nat option" where
  \<comment> \<open>\<open>(mockFetch\.mockReset\(\);)\<close>\<close>
  "third1 s = (if prefix ''mockFetch.mockReset();'' s then Some 22 else None)"

definition third2 :: "string \<Rightarrow> nat option" where
  \<comment> \<open>\<open>(vi\.clearAllMocks\(\);|global\.fetch = vi\.fn\(\);)\<close>\<close>
  "third2 s =
     (if prefix ''vi.clearAllMocks();'' s then Some 19
      else if prefix ''global.fetch = vi.fn();'' s then Some 23
      else None)"

definition third3 :: "string \<Rightarrow> nat option" where
  \<comment> \<open>\<open>(vi\.clearAllMocks\(\);\s*\n\s*setupMswHandlers\(\);)\<close>\<close>
  "third3 s =
     (if prefix ''vi.clearAllMocks();'' s then
        (let r1 = drop 19 s; ws = takeWhile is_space r1; r2 = dropWhile is_space r1
         in if CHR ''\<newline>'' \<in> set ws \<and> prefix ''setupMswHandlers();'' r2
            then Some (19 + length ws + 19)
            else None)
      else None)"

definition insert_setup :: "string \<Rightarrow> string \<times> string \<times> string \<Rightarrow> string" where
  \<comment> \<open>the template \<open>\1\2cleanupAuthMocks = setupAuthMocks();\2\3\<close>\<close>
  "insert_setup whole g =
     (case g of (g1, g2, g3) \<Rightarrow> g1 @ g2 @ ''cleanupAuthMocks = setupAuthMocks();'' @ g2 @ g3)"

definition sub_pattern1 :: "string \<Rightarrow> string" where
  "sub_pattern1 content = re_sub (before_each_pattern third1) insert_setup content"

definition sub_pattern2 :: "string \<Rightarrow> string" where
  "sub_pattern2 content = re_sub (before_each_pattern third2) insert_setup content"

definition sub_pattern3 :: "string \<Rightarrow> string" where
  "sub_pattern3 content = re_sub (before_each_pattern third3) insert_setup content"

definition add_setup_auth_mocks :: "string \<Rightarrow> string" where
  \<comment> \<open>lines 42 to 59 of \<open>fix_test_file\<close>\<close>
  "add_setup_auth_mocks original_content =
     (let content = sub_pattern1 original_content;
          content = (if content = original_content then sub_pattern2 content else content);
          content = (if content = original_content then sub_pattern3 content else content)
      in content)"

section \<open>fix_tests.py: the line loop\<close>

record ft_state =
  new_lines :: "string list"
  in_create_wrapper :: bool
  brace_count :: int
  added_import :: bool
  added_cleanup_var :: bool
  describe_depth :: int

definition ft_init :: ft_state where
  "ft_init = \<lparr>new_lines = [], in_create_wrapper = False, brace_count = 0,
             added_import = False, added_cleanup_var = False, describe_depth = 0\<rparr>"

definition ft_step :: "ft_state \<Rightarrow> string \<Rightarrow> string option \<Rightarrow> ft_state" where
  \<comment> \<open>one round of the loop on \<open>line = lines[i]\<close>; \<open>nxt\<close> is \<open>lines[i + 1]\<close> when
      \<open>i + 1 < len(lines)\<close>\<close>
  "ft_step st line nxt =
     (if str_in (''from 'vitest'' @ [CHR 0x27]) line \<and> \<not> added_import st then
        st\<lparr>new_lines := new_lines st @
              [line, ''import { createTestWrapper, setupAuthMocks } from '../../test/testUtils';''],
           added_import := True\<rparr>
      else if list_ex (\<lambda>x. str_in x line)
                [''BrowserRouter'', ''QueryClient'', ''QueryClientProvider'',
                 ''I18nProvider'', ''ToastProvider'']
              \<and> str_in ''import'' line then st
      else if str_in ''function createWrapper()'' line
              \<or> str_in ''function createTestWrapper()'' line then
        st\<lparr>in_create_wrapper := True, brace_count := 0\<rparr>
      else if in_create_wrapper st then
        (let bc = brace_count st + (count_char CHR ''{'' line - count_char CHR ''}'' line)
         in st\<lparr>brace_count := bc, in_create_wrapper := \<not> (bc < 0)\<rparr>)
      else
        (let line = str_replace ''createWrapper()'' ''createTestWrapper()'' line;
             depth = (if str_in ''describe('' line then describe_depth st + 1
                      else describe_depth st);
             st = st\<lparr>describe_depth := depth\<rparr>
         in if str_in ''describe('' line \<and> depth = 1 \<and> \<not> added_cleanup_var st then
              st\<lparr>new_lines := new_lines st @ [line, ''  let cleanupAuthMocks: () => void;'', []],
                 added_cleanup_var := True\<rparr>
            else if str_in ''  beforeEach(() => {'' line \<and> depth = 1 then
              st\<lparr>new_lines := new_lines st @ [line] @
                   (case nxt of
                      None \<Rightarrow> []
                    | Some l \<Rightarrow> if \<not> str_in ''cleanupAuthMocks'' l
                                then [''    cleanupAuthMocks = setupAuthMocks();''] else [])\<rparr>
            else if str_in ''  afterEach(() => {'' line \<and> depth = 1 then
              st\<lparr>new_lines := new_lines st @ [line] @
                   (case nxt of
                      None \<Rightarrow> []
                    | Some l \<Rightarrow> if \<not> str_in ''cleanupAuthMocks'' l
                                then [''    cleanupAuthMocks();''] else [])\<rparr>
            else st\<lparr>new_lines := new_lines st @ [line]\<rparr>))"

fun ft_loop :: "ft_state \<Rightarrow> string list \<Rightarrow> ft_state" where
  \<comment> \<open>\<open>for i, line in enumerate(lines)\<close>, on the lines from \<open>i\<close> on\<close>
  "ft_loop st [] = st"
| "ft_loop st (line # rest) =
     ft_loop (ft_step st line (case rest of [] \<Rightarrow> None | l # _ \<Rightarrow> Some l)) rest"

definition fix_tests_lines :: "string \<Rightarrow> string list" where
  \<comment> \<open>lines 14 to 77: split and loop; the value of \<open>new_lines\<close> after the loop\<close>
  "fix_tests_lines content = new_lines (ft_loop ft_init (split_on CHR ''\<newline>'' content))"

definition fix_tests_content :: "string \<Rightarrow> string" where
  \<comment> \<open>the text that line 81 writes: the lines, joined\<close>
  "fix_tests_content content = join_with ''\<newline>'' (fix_tests_lines content)"

section \<open>fix_resource_form_tests.py: the line loop\<close>

text \<open>
  The outer \<open>while\<close> loop is \<open>fix_lines\<close> and the inner one \<open>find_block_end\<close>, both on
  the lines from index \<open>i\<close> on; each returns the lines appended to \<open>fixed_lines\<close> until
  the end of the outer loop. The inner loop leaves through \<open>break\<close>, back into the
  outer loop, or by reaching the last line, which ends the outer loop as well. The
  counter \<open>brace_count\<close> of this script is the argument \<open>braces\<close>.
\<close>

fun fix_lines :: "string list \<Rightarrow> string list"
  and find_block_end :: "string list \<Rightarrow> int \<Rightarrow> bool \<Rightarrow> string list \<Rightarrow> string list" where
  "fix_lines [] = []"
| "fix_lines [line] = [line]"
| "fix_lines (line # nxt # rest) =
     (if str_in ''global.fetch = vi.fn().mockImplementation'' line
         \<and> str_in ''wrapFetchMock(vi);'' nxt
      then str_replace ''global.fetch = vi.fn()'' ''const mockFetch = vi.fn()'' line
           # find_block_end rest 0 False []
      else line # fix_lines (nxt # rest))"
| "find_block_end [] braces found_opening block_lines = []"
| "find_block_end (current # rest) braces found_opening block_lines =
     (let block_lines = block_lines @ [current];
          found_opening = (found_opening \<or> str_in ''{'' current);
          braces = (if str_in ''{'' current
                    then braces + count_char CHR ''{'' current else braces);
          braces = (if str_in ''}'' current
                    then braces - count_char CHR ''}'' current else braces)
      in if found_opening \<and> braces = 0 \<and> str_in ''as typeof global.fetch'' current
         then block_lines
              @ [replicate (length current - length (lstrip current)) CHR '' ''
                   @ ''wrapFetchMock(mockFetch);'', []]
              @ fix_lines rest
         else find_block_end rest braces found_opening block_lines)"

definition fix_resource_form_lines :: "string \<Rightarrow> string list" where
  \<comment> \<open>lines 12 to 63: split and loop; the value of \<open>fixed_lines\<close> after the loop\<close>
  "fix_resource_form_lines content = fix_lines (split_on CHR ''\<newline>'' content)"

definition fix_resource_form_content :: "string \<Rightarrow> string" where
  \<comment> \<open>the text that line 67 writes: the lines, joined\<close>
  "fix_resource_form_content content = join_with ''\<newline>'' (fix_resource_form_lines content)"

section \<open>Files, console output and exceptions\<close>

text \<open>
  A script reads and writes files and prints status lines. The world it runs in is the
  file system (a map from paths to files) and the lines printed so far. A file that
  exists may be unreadable or unwritable for the process: \<open>open\<close> then raises
  \<open>PermissionError\<close>, and \<open>FileNotFoundError\<close> when a file opened for reading does not
  exist. A function of a script returns its result, or the exception that left it,
  together with the world at that moment. An exception that leaves the script ends the
  process with a traceback and a non-zero exit status. Each constructor of \<open>msg\<close> is
  one \<open>print\<close> statement of the scripts, with the path or count it shows;
  \<open>MemoryError\<close> stands for an exception raised while a content is worked on in
  memory.

  The field \<open>data\<close> is the text stored in the file. The scripts open their files in
  text mode: reading translates the line ends (\<open>universal_newlines\<close>); opening a file
  for writing creates it or empties it at once, before anything is written; writing
  stores the text as it is (the line separator of the system is the line feed).
\<close>

type_synonym path = string

datatype exn = FileNotFoundError | PermissionError | MemoryError

record file_entry =
  data :: string
  readable :: bool
  writable :: bool

datatype msg =
    Banner
  | FileNotFound path
  | AlreadyUpdated path
  | NoMockFetchFound path
  | NoSetupAuthMocksImport path
  | Updated path
  | NoChangesMade path
  | NoChangesNeeded path
  | AlreadyFixed path
  | NoCleanupAuthMocksDeclaration path
  | Fixed path
  | PatternNotFound path
  | Skipping path
  | ErrorFixing path exn
  | Traceback exn
  | Summary nat
  | FixedResourceFormPage

record world =
  files :: "path \<rightharpoonup> file_entry"
  out :: "msg list"

definition print :: "msg \<Rightarrow> world \<Rightarrow> world" where
  "print m w = w\<lparr>out := out w @ [m]\<rparr>"

definition os_path_exists :: "world \<Rightarrow> path \<Rightarrow> bool" where
  "os_path_exists w p = (files w p \<noteq> None)"

definition read_file :: "world \<Rightarrow> path \<Rightarrow> exn + string" where
  \<comment> \<open>\<open>with open(p, 'r') as f: content = f.read()\<close>\<close>
  "read_file w p =
     (case files w p of
        None \<Rightarrow> Inl FileNotFoundError
      | Some f \<Rightarrow> if readable f then Inr (universal_newlines (data f))
                  else Inl PermissionError)"

definition open_write :: "path \<Rightarrow> world \<Rightarrow> exn + world" where
  \<comment> \<open>\<open>open(p, 'w')\<close>: the file is created, or emptied\<close>
  "open_write p w =
     (case files w p of
        None \<Rightarrow> Inr (w\<lparr>files := (files w)(p \<mapsto> \<lparr>data = [], readable = True, writable = True\<rparr>)\<rparr>)
      | Some f \<Rightarrow> if writable f then Inr (w\<lparr>files := (files w)(p \<mapsto> f\<lparr>data := []\<rparr>)\<rparr>)
                  else Inl PermissionError)"

definition file_write :: "path \<Rightarrow> string \<Rightarrow> world \<Rightarrow> world" where
  \<comment> \<open>\<open>f.write(s)\<close> on the file just opened, and the end of the \<open>with\<close> block\<close>
  "file_write p s w =
     (case files w p of
        None \<Rightarrow> w
      | Some f \<Rightarrow> w\<lparr>files := (files w)(p \<mapsto> f\<lparr>data := s\<rparr>)\<rparr>)"

definition write_file :: "path \<Rightarrow> string \<Rightarrow> world \<Rightarrow> exn + world" where
  \<comment> \<open>\<open>with open(p, 'w') as f: f.write(content)\<close>, where \<open>content\<close> is a variable:
      nothing is computed between the opening and the writing\<close>
  "write_file p s w =
     (case open_write p w of
        Inl e \<Rightarrow> Inl e
      | Inr w' \<Rightarrow> Inr (file_write p s w'))"

definition returns :: "('a \<Rightarrow> 'b) \<Rightarrow> 'a \<Rightarrow> exn + 'b" where
  \<comment> \<open>a computation in memory that raises nothing\<close>
  "returns f x = Inr (f x)"

definition raises :: "exn \<Rightarrow> 'a \<Rightarrow> exn + 'b" where
  \<comment> \<open>a computation in memory that raises the exception\<close>
  "raises e x = Inl e"

fun count_updated ::
  "(path \<Rightarrow> world \<Rightarrow> (exn + bool) \<times> world) \<Rightarrow> path list \<Rightarrow> nat \<Rightarrow> world \<Rightarrow> (exn + nat) \<times> world" where
  \<comment> \<open>the loop of \<open>main\<close>: \<open>for test_file in test_files: if f(test_file): count += 1\<close>\<close>
  "count_updated f [] count w = (Inr count, w)"
| "count_updated f (test_file # rest) count w =
     (case f test_file w of
        (Inl e, w') \<Rightarrow> (Inl e, w')
      | (Inr updated, w') \<Rightarrow> count_updated f rest (if updated then count + 1 else count) w')"

definition run_main ::
  "(path \<Rightarrow> world \<Rightarrow> (exn + bool) \<times> world) \<Rightarrow> path list \<Rightarrow> world \<Rightarrow> (exn + unit) \<times> world" where
  \<comment> \<open>\<open>main\<close>: the banner, the loop, the summary\<close>
  "run_main f test_files w =
     (case count_updated f test_files 0 (print Banner w) of
        (Inl e, w') \<Rightarrow> (Inl e, w')
      | (Inr count, w') \<Rightarrow> (Inr (), print (Summary count) w'))"

section \<open>fix_fetch_mocks.py\<close>

definition fetch_mocks_test_files :: "path list" where
  "fetch_mocks_test_files =
     [''emf-ui/app/src/pages/CollectionsPage/CollectionsPage.test.tsx'',
      ''emf-ui/app/src/pages/DashboardPage/DashboardPage.test.tsx'',
      ''emf-ui/app/src/pages/MenuBuilderPage/MenuBuilderPage.test.tsx'',
      ''emf-ui/app/src/pages/MigrationsPage/MigrationsPage.test.tsx'',
      ''emf-ui/app/src/pages/OIDCProvidersPage/OIDCProvidersPage.test.tsx'',
      ''emf-ui/app/src/pages/PackagesPage/PackagesPage.test.tsx'',
      ''emf-ui/app/src/pages/PageBuilderPage/PageBuilderPage.test.tsx'',
      ''emf-ui/app/src/pages/PluginsPage/PluginsPage.test.tsx'',
      ''emf-ui/app/src/pages/PoliciesPage/PoliciesPage.test.tsx'',
      ''emf-ui/app/src/pages/ResourceBrowserPage/ResourceBrowserPage.test.tsx'',
      ''emf-ui/app/src/pages/ResourceDetailPage/ResourceDetailPage.test.tsx'',
      ''emf-ui/app/src/pages/ResourceFormPage/ResourceFormPage.test.tsx'',
      ''emf-ui/app/src/pages/ResourceListPage/ResourceListPage.test.tsx'',
      ''emf-ui/app/src/pages/RolesPage/RolesPage.test.tsx'',
      ''emf-ui/app/src/components/CollectionForm/CollectionForm.test.tsx'']"

definition fetch_mocks_update_with ::
  "(string \<Rightarrow> exn + string) \<Rightarrow> path \<Rightarrow> world \<Rightarrow> (exn + bool) \<times> world" where
  \<comment> \<open>\<open>update_test_file\<close>; \<open>rewrite\<close> stands for lines 53 to 80, which work on the
      content in memory\<close>
  "fetch_mocks_update_with rewrite filepath w =
     (if \<not> os_path_exists w filepath then (Inr False, print (FileNotFound filepath) w)
      else case read_file w filepath of
        Inl e \<Rightarrow> (Inl e, w)
      | Inr content \<Rightarrow>
          if str_in ''wrapFetchMock'' content
          then (Inr False, print (AlreadyUpdated filepath) w)
          else if \<not> str_in ''mockFetch'' content
          then (Inr False, print (NoMockFetchFound filepath) w)
          else if \<not> str_in ''setupAuthMocks'' content
          then (Inr False, print (NoSetupAuthMocksImport filepath) w)
          else case rewrite content of
            Inl e \<Rightarrow> (Inl e, w)
          | Inr new_content \<Rightarrow>
              if new_content \<noteq> content then
                (case write_file filepath new_content w of
                   Inl e \<Rightarrow> (Inl e, w)
                 | Inr w' \<Rightarrow> (Inr True, print (Updated filepath) w'))
              else (Inr False, print (NoChangesMade filepath) w))"

definition fetch_mocks_update_test_file :: "path \<Rightarrow> world \<Rightarrow> (exn + bool) \<times> world" where
  "fetch_mocks_update_test_file = fetch_mocks_update_with (returns add_wrap_fetch_mock)"

definition fetch_mocks_main :: "world \<Rightarrow> (exn + unit) \<times> world" where
  "fetch_mocks_main = run_main fetch_mocks_update_test_file fetch_mocks_test_files"

section \<open>fix_mock_responses.py\<close>

definition mock_responses_test_files :: "path list" where
  "mock_responses_test_files =
     [''emf-ui/app/src/pages/DashboardPage/DashboardPage.test.tsx'',
      ''emf-ui/app/src/pages/MenuBuilderPage/MenuBuilderPage.test.tsx'',
      ''emf-ui/app/src/pages/OIDCProvidersPage/OIDCProvidersPage.test.tsx'',
      ''emf-ui/app/src/pages/PageBuilderPage/PageBuilderPage.test.tsx'',
      ''emf-ui/app/src/pages/PoliciesPage/PoliciesPage.test.tsx'',
      ''emf-ui/app/src/pages/ResourceBrowserPage/ResourceBrowserPage.test.tsx'',
      ''emf-ui/app/src/pages/ResourceListPage/ResourceListPage.test.tsx'',
      ''emf-ui/app/src/pages/RolesPage/RolesPage.test.tsx'']"

definition mock_responses_update_with ::
  "(string \<Rightarrow> exn + string) \<Rightarrow> path \<Rightarrow> world \<Rightarrow> (exn + bool) \<times> world" where
  \<comment> \<open>\<open>update_test_file\<close>; \<open>rewrite\<close> stands for the call of
      \<open>wrap_array_in_paginated_response\<close>\<close>
  "mock_responses_update_with rewrite filepath w =
     (if \<not> os_path_exists w filepath then (Inr False, print (FileNotFound filepath) w)
      else case read_file w filepath of
        Inl e \<Rightarrow> (Inl e, w)
      | Inr content \<Rightarrow>
          (case rewrite content of
             Inl e \<Rightarrow> (Inl e, w)
           | Inr new_content \<Rightarrow>
               if new_content \<noteq> content then
                 (case write_file filepath new_content w of
                    Inl e \<Rightarrow> (Inl e, w)
                  | Inr w' \<Rightarrow> (Inr True, print (Updated filepath) w'))
               else (Inr False, print (NoChangesNeeded filepath) w)))"

definition mock_responses_update_test_file :: "path \<Rightarrow> world \<Rightarrow> (exn + bool) \<times> world" where
  "mock_responses_update_test_file =
     mock_responses_update_with (returns wrap_array_in_paginated_response)"

definition mock_responses_main :: "world \<Rightarrow> (exn + unit) \<times> world" where
  "mock_responses_main = run_main mock_responses_update_test_file mock_responses_test_files"

section \<open>fix_setup_auth_mocks.py\<close>

definition setup_auth_test_files :: "path list" where
  "setup_auth_test_files =
     [''emf-ui/app/src/pages/MenuBuilderPage/MenuBuilderPage.test.tsx'',
      ''emf-ui/app/src/pages/OIDCProvidersPage/OIDCProvidersPage.test.tsx'',
      ''emf-ui/app/src/pages/PackagesPage/PackagesPage.test.tsx'',
      ''emf-ui/app/src/pages/PoliciesPage/PoliciesPage.test.tsx'',
      ''emf-ui/app/src/pages/ResourceBrowserPage/ResourceBrowserPage.test.tsx'',
      ''emf-ui/app/src/pages/ResourceDetailPage/ResourceDetailPage.test.tsx'',
      ''emf-ui/app/src/pages/ResourceFormPage/ResourceFormPage.test.tsx'',
      ''emf-ui/app/src/pages/ResourceListPage/ResourceListPage.test.tsx'',
      ''emf-ui/app/src/pages/RolesPage/RolesPage.test.tsx'']"

definition setup_auth_fix_with ::
  "(string \<Rightarrow> exn + string) \<Rightarrow> path \<Rightarrow> world \<Rightarrow> (exn + bool) \<times> world" where
  \<comment> \<open>\<open>fix_test_file\<close>; \<open>rewrite\<close> stands for lines 42 to 59\<close>
  "setup_auth_fix_with rewrite filepath w =
     (if \<not> os_path_exists w filepath then (Inr False, print (FileNotFound filepath) w)
      else case read_file w filepath of
        Inl e \<Rightarrow> (Inl e, w)
      | Inr content \<Rightarrow>
          if str_in ''cleanupAuthMocks = setupAuthMocks()'' content
          then (Inr False, print (AlreadyFixed filepath) w)
          else if \<not> str_in ''let cleanupAuthMocks'' content
          then (Inr False, print (NoCleanupAuthMocksDeclaration filepath) w)
          else case rewrite content of
            Inl e \<Rightarrow> (Inl e, w)
          | Inr new_content \<Rightarrow>
              if new_content \<noteq> content then
                (case write_file filepath new_content w of
                   Inl e \<Rightarrow> (Inl e, w)
                 | Inr w' \<Rightarrow> (Inr True, print (Fixed filepath) w'))
              else (Inr False, print (PatternNotFound filepath) w))"

definition setup_auth_fix_test_file :: "path \<Rightarrow> world \<Rightarrow> (exn + bool) \<times> world" where
  "setup_auth_fix_test_file = setup_auth_fix_with (returns add_setup_auth_mocks)"

definition setup_auth_main :: "world \<Rightarrow> (exn + unit) \<times> world" where
  "setup_auth_main = run_main setup_auth_fix_test_file setup_auth_test_files"

section \<open>fix_tests.py\<close>

definition fix_tests_files :: "path list" where
  "fix_tests_files =
     [''src/pages/CollectionsPage/CollectionsPage.test.tsx'',
      ''src/pages/DashboardPage/DashboardPage.test.tsx'',
      ''src/pages/PluginsPage/PluginsPage.test.tsx'',
      ''src/pages/MigrationsPage/MigrationsPage.test.tsx'']"

definition fix_tests_fix_with ::
  "(string \<Rightarrow> exn + string list) \<Rightarrow> (string list \<Rightarrow> exn + string)
     \<Rightarrow> path \<Rightarrow> world \<Rightarrow> (exn + unit) \<times> world" where
  \<comment> \<open>\<open>fix_test_file\<close>; \<open>rewrite\<close> stands for lines 14 to 77, which build the list
      \<open>new_lines\<close> (here \<open>fixed\<close>), and \<open>join\<close> for the join of line 81, which is
      evaluated inside the \<open>with\<close> block, when the file has been opened for writing\<close>
  "fix_tests_fix_with rewrite join filepath w =
     (case read_file w filepath of
        Inl e \<Rightarrow> (Inl e, w)
      | Inr content \<Rightarrow>
          if str_in ''createTestWrapper'' content
          then (Inr (), print (Skipping filepath) w)
          else case rewrite content of
            Inl e \<Rightarrow> (Inl e, w)
          | Inr fixed \<Rightarrow>
              (case open_write filepath w of
                 Inl e \<Rightarrow> (Inl e, w)
               | Inr w' \<Rightarrow>
                   (case join fixed of
                      Inl e \<Rightarrow> (Inl e, w')
                    | Inr joined \<Rightarrow>
                        (Inr (), print (Fixed filepath) (file_write filepath joined w')))))"

fun fix_tests_loop_with ::
  "(string \<Rightarrow> exn + string list) \<Rightarrow> (string list \<Rightarrow> exn + string)
     \<Rightarrow> path list \<Rightarrow> world \<Rightarrow> (exn + unit) \<times> world" where
  \<comment> \<open>the loop at the end of the script, with its \<open>try\<close> and \<open>except Exception\<close>\<close>
  "fix_tests_loop_with rewrite join [] w = (Inr (), w)"
| "fix_tests_loop_with rewrite join (filepath # rest) w =
     (case fix_tests_fix_with rewrite join filepath w of
        (Inl e, w') \<Rightarrow>
          fix_tests_loop_with rewrite join rest
            (print (Traceback e) (print (ErrorFixing filepath e) w'))
      | (Inr u, w') \<Rightarrow> fix_tests_loop_with rewrite join rest w')"

definition fix_tests_fix_test_file :: "path \<Rightarrow> world \<Rightarrow> (exn + unit) \<times> world" where
  "fix_tests_fix_test_file =
     fix_tests_fix_with (returns fix_tests_lines) (returns (join_with ''\<newline>''))"

definition fix_tests_main :: "world \<Rightarrow> (exn + unit) \<times> world" where
  "fix_tests_main =
     fix_tests_loop_with (returns fix_tests_lines) (returns (join_with ''\<newline>''))
       fix_tests_files"

section \<open>fix_resource_form_tests.py\<close>

definition resource_form_path :: path where
  "resource_form_path = ''src/pages/ResourceFormPage/ResourceFormPage.test.tsx''"

definition resource_form_with ::
  "(string \<Rightarrow> exn + string list) \<Rightarrow> (string list \<Rightarrow> exn + string)
     \<Rightarrow> world \<Rightarrow> (exn + unit) \<times> world" where
  \<comment> \<open>the whole script; \<open>rewrite\<close> stands for lines 12 to 63, which build the list
      \<open>fixed_lines\<close> (here \<open>fixed\<close>), and \<open>join\<close> for the join of line 67, which is
      evaluated inside the \<open>with\<close> block, when the file has been opened for writing\<close>
  "resource_form_with rewrite join w =
     (case read_file w resource_form_path of
        Inl e \<Rightarrow> (Inl e, w)
      | Inr content \<Rightarrow>
          (case rewrite content of
             Inl e \<Rightarrow> (Inl e, w)
           | Inr fixed \<Rightarrow>
               (case open_write resource_form_path w of
                  Inl e \<Rightarrow> (Inl e, w)
                | Inr w' \<Rightarrow>
                    (case join fixed of
                       Inl e \<Rightarrow> (Inl e, w')
                     | Inr joined \<Rightarrow>
                         (Inr (), print FixedResourceFormPage
                                    (file_write resource_form_path joined w'))))))"

definition resource_form_main :: "world \<Rightarrow> (exn + unit) \<times> world" where
  "resource_form_main =
     resource_form_with (returns fix_resource_form_lines) (returns (join_with ''\<newline>''))"

section \<open>Auxiliary notions for the proofs\<close>

fun lit_free :: "'a list \<Rightarrow> 'a list \<Rightarrow> bool" where
  \<comment> \<open>the text \<open>L\<close> occurs in \<open>p\<close> at most as its very end\<close>
  "lit_free L [] = True"
| "lit_free L (x # xs) = ((prefix L (x # xs) \<longrightarrow> length xs < length L) \<and> lit_free L xs)"

fun no_match_in :: "(string \<Rightarrow> (nat \<times> 'g) option) \<Rightarrow> string \<Rightarrow> bool" where
  \<comment> \<open>no match starts inside the text \<open>w\<close>, whatever follows it\<close>
  "no_match_in m [] = True"
| "no_match_in m (c # cs) = ((\<forall>u. m (c # cs @ u) = None) \<and> no_match_in m cs)"

definition lit1 :: string where
  \<comment> \<open>the literal text at the start of pattern 1 of fix_mock_responses.py\<close>
  "lit1 = ''mockFetch.mockResolvedValue(createMockResponse(''"

definition lit2 :: string where
  \<comment> \<open>the literal text at the start of pattern 2 of fix_mock_responses.py\<close>
  "lit2 = ''Promise.resolve(createMockResponse(''"

definition call_lit :: "string \<Rightarrow> bool" where
  "call_lit lit = (lit = lit1 \<or> lit = lit2)"

definition paginated :: "string \<Rightarrow> string \<Rightarrow> string" where
  \<comment> \<open>the text that \<open>replace_simple\<close> and \<open>replace_promise\<close> build behind the literal\<close>
  "paginated lit array_name =
     lit @ ''{ content: '' @ array_name @ '', totalElements: '' @ array_name
       @ ''.length, totalPages: 1, size: 1000, number: 0 }))''"

definition call_repl :: "string \<Rightarrow> string \<Rightarrow> string \<Rightarrow> string" where
  "call_repl lit whole array_name =
     (if array_name = ''null'' \<or> array_name = ''undefined'' \<or> prefix ''{'' array_name
      then whole else paginated lit array_name)"

definition wrap_with :: "string \<Rightarrow> string \<Rightarrow> string" where
  \<comment> \<open>the substitution of one of the two patterns\<close>
  "wrap_with lit content = re_sub (match_call lit) (call_repl lit) content"

fun no_overlap :: "'a list \<Rightarrow> 'a list \<Rightarrow> bool" where
  \<comment> \<open>no non-empty end of \<open>w\<close> is a start of \<open>la\<close> or starts with \<open>la\<close>\<close>
  "no_overlap la [] = True"
| "no_overlap la (c # cs) =
     (\<not> prefix (c # cs) la \<and> \<not> prefix la (c # cs) \<and> no_overlap la cs)"

section \<open>Files: printing, reading and writing\<close>

lemma files_print [simp]: "files (print m w) = files w"
  by (simp add: print_def)

lemma read_file_Some:
  "files w p = Some f \<Longrightarrow> readable f \<Longrightarrow> read_file w p = Inr (universal_newlines (data f))"
  by (simp add: read_file_def)

text \<open>
  The translation of the line ends neither makes nor destroys an occurrence of a text
  that holds no carriage return and no line feed, such as the guard strings.
\<close>

lemma universal_newlines_Cons:
  "c \<noteq> CHR 0x0D \<Longrightarrow> universal_newlines (c # cs) = c # universal_newlines cs"
  by (cases cs) simp_all

lemma prefix_universal_newlines:
  assumes "CHR 0x0D \<notin> set W" and "CHR ''\<newline>'' \<notin> set W"
  shows "prefix W (universal_newlines s) = prefix W s"
  using assms
proof (induction W arbitrary: s)
  case Nil
  show ?case by simp
next
  case (Cons x W)
  then have x: "x \<noteq> CHR 0x0D" "x \<noteq> CHR ''\<newline>''" by auto
  show ?case
  proof (cases s)
    case Nil
    then show ?thesis by simp
  next
    case (Cons c t)
    show ?thesis
    proof (cases "c = CHR 0x0D")
      case True
      have "hd (universal_newlines (c # t)) = CHR ''\<newline>''"
        "universal_newlines (c # t) \<noteq> []"
        using True by (cases t; simp)+
      then have "\<not> prefix (x # W) (universal_newlines (c # t))"
        using x(2) by (cases "universal_newlines (c # t)") auto
      then show ?thesis using True x(1) Cons by simp
    next
      case False
      then show ?thesis using Cons Cons.IH[of t] Cons.prems
        by (simp add: universal_newlines_Cons)
    qed
  qed
qed

lemma str_in_universal_newlines:
  assumes W: "CHR 0x0D \<notin> set W" "CHR ''\<newline>'' \<notin> set W"
  shows "str_in W (universal_newlines s) = str_in W s"
proof (cases W)
  case Nil
  then show ?thesis by (simp add: str_in_def)
next
  case (Cons x W')
  then have x: "x \<noteq> CHR 0x0D" "x \<noteq> CHR ''\<newline>''" using W by auto
  have np: "\<not> prefix W (CHR 0x0D # t)" "\<not> prefix W (CHR ''\<newline>'' # t)" for t
    using Cons x by auto
  note pu = prefix_universal_newlines[OF W]
  show ?thesis unfolding str_in_def
  proof (induction s rule: universal_newlines.induct)
    case 1
    show ?case by simp
  next
    case (2 c)
    have "sublist W (universal_newlines [c]) =
        (prefix W (universal_newlines [c]) \<or> sublist W [])"
      by (simp add: sublist_Cons_right)
    also have "\<dots> = (prefix W [c] \<or> sublist W [])" by (simp only: pu)
    also have "\<dots> = sublist W [c]" by (simp add: sublist_Cons_right)
    finally show ?case .
  next
    case (3 c d cs)
    show ?case
    proof (cases "c = CHR 0x0D")
      case False
      have "sublist W (universal_newlines (c # d # cs)) =
          (prefix W (universal_newlines (c # d # cs)) \<or> sublist W (universal_newlines (d # cs)))"
        using False by (simp add: sublist_Cons_right)
      also have "\<dots> = (prefix W (c # d # cs) \<or> sublist W (d # cs))"
        using 3(3)[OF False] by (simp only: pu)
      also have "\<dots> = sublist W (c # d # cs)" by (simp add: sublist_Cons_right)
      finally show ?thesis .
    next
      case True
      note c = True
      show ?thesis
      proof (cases "d = CHR ''\<newline>''")
        case True
        have "sublist W (universal_newlines (c # d # cs)) = sublist W (universal_newlines cs)"
          using c True np(2) by (simp add: sublist_Cons_right)
        also have "\<dots> = sublist W cs" using 3(1)[OF c True] .
        also have "\<dots> = sublist W (c # d # cs)"
          using c True np by (simp add: sublist_Cons_right)
        finally show ?thesis .
      next
        case False
        have "sublist W (universal_newlines (c # d # cs)) = sublist W (universal_newlines (d # cs))"
          using c False np(2) by (simp add: sublist_Cons_right)
        also have "\<dots> = sublist W (d # cs)" using 3(2)[OF c False] .
        also have "\<dots> = sublist W (c # d # cs)"
          using c np(1) by (simp add: sublist_Cons_right)
        finally show ?thesis .
      qed
    qed
  qed
qed

lemma write_file_eq:
  "write_file p s w =
     (case files w p of
        None \<Rightarrow> Inr (w\<lparr>files := (files w)(p \<mapsto> \<lparr>data = s, readable = True, writable = True\<rparr>)\<rparr>)
      | Some f \<Rightarrow> if writable f then Inr (w\<lparr>files := (files w)(p \<mapsto> f\<lparr>data := s\<rparr>)\<rparr>)
                  else Inl PermissionError)"
  by (simp add: write_file_def open_write_def file_write_def split: option.splits)

section \<open>Substitution: general facts\<close>

lemma prefix_short:
  assumes "prefix L x" "length p \<le> length L"
  shows "prefix p x = prefix p L"
  using assms by (metis prefix_length_prefix prefix_order.trans)

lemma prefix_sub_stable:
  assumes m: "\<And>s n g. m s = Some (n, g) \<Longrightarrow> 0 < n \<and> prefix L s \<and> prefix L (r (take n s) g)"
    and L: "L \<noteq> []"
    and p: "lit_free L p"
  shows "prefix p (re_sub m r s) = prefix p s"
  using p
proof (induction s arbitrary: p)
  case Nil
  have "m [] = None"
  proof (cases "m []")
    case (Some a)
    then show ?thesis using m[of "[]" "fst a" "snd a"] L by simp
  qed simp
  then show ?case by simp
next
  case (Cons c cs)
  show ?case
  proof (cases "m (c # cs)")
    case None
    show ?thesis
    proof (cases p)
      case Nil then show ?thesis by simp
    next
      case (Cons x p')
      with Cons.prems have "lit_free L p'" by simp
      from Cons.IH[OF this] show ?thesis using None Cons by simp
    qed
  next
    case (Some a)
    obtain n g where a: "a = (n, g)" by (cases a)
    from m[of "c # cs" n g] Some a
    have n: "0 < n" and Ls: "prefix L (c # cs)" and LR: "prefix L (r (take n (c # cs)) g)" by auto
    let ?out = "r (take n (c # cs)) g @ re_sub m r (drop (n - 1) cs)"
    have out: "re_sub m r (c # cs) = ?out" using Some a n by simp
    have LO: "prefix L ?out" using LR by simp
    show ?thesis
    proof (cases "length p \<le> length L")
      case True
      then show ?thesis unfolding out using prefix_short[OF LO True] prefix_short[OF Ls True] by simp
    next
      case False
      have np: "\<not> prefix L p"
      proof (cases p)
        case Nil then show ?thesis using False by simp
      next
        case (Cons x p') then show ?thesis using Cons.prems False by auto
      qed
      have "\<not> prefix p x" if "prefix L x" for x
        using that np False by (metis prefix_length_prefix nat_le_linear)
      then show ?thesis unfolding out using LO Ls by blast
    qed
  qed
qed

lemma re_sub_idem:
  assumes sk: "\<And>s n g u. m s = Some (n, g) \<Longrightarrow>
      0 < n \<and> re_sub m r (r (take n s) g @ u) = r (take n s) g @ re_sub m r u"
    and st: "\<And>c cs. m (c # cs) = None \<Longrightarrow> m (c # re_sub m r cs) = None"
    and e: "m [] = None"
  shows "re_sub m r (re_sub m r s) = re_sub m r s"
proof (induction s rule: length_induct)
  case (1 s)
  show ?case
  proof (cases s)
    case Nil then show ?thesis using e by simp
  next
    case (Cons c cs)
    show ?thesis
    proof (cases "m (c # cs)")
      case None
      have "re_sub m r (re_sub m r cs) = re_sub m r cs" using 1 Cons by simp
      then show ?thesis using None st[OF None] Cons by simp
    next
      case (Some a)
      obtain n g where a: "a = (n, g)" by (cases a)
      from sk[of "c # cs" n g] Some a have n: "0 < n" by auto
      have "length (drop (n - 1) cs) < length s" using Cons by simp
      then have ih: "re_sub m r (re_sub m r (drop (n - 1) cs)) = re_sub m r (drop (n - 1) cs)"
        using 1 by blast
      have "re_sub m r s = r (take n (c # cs)) g @ re_sub m r (drop (n - 1) cs)"
        using Some a n Cons by simp
      then show ?thesis using sk[of "c # cs" n g "re_sub m r (drop (n - 1) cs)"] Some a ih by simp
    qed
  qed
qed

lemma re_sub_append:
  assumes ctx: "\<And>t. t \<noteq> [] \<Longrightarrow> suffix t a \<Longrightarrow> m (t @ b) = m t"
    and len: "\<And>s n g. m s = Some (n, g) \<Longrightarrow> 0 < n \<and> n \<le> length s"
  shows "re_sub m r (a @ b) = re_sub m r a @ re_sub m r b"
  using ctx
proof (induction a rule: length_induct)
  case (1 a)
  show ?case
  proof (cases a)
    case Nil
    have "m [] = None"
    proof (cases "m []")
      case (Some x) then show ?thesis using len[of "[]" "fst x" "snd x"] by auto
    qed simp
    then show ?thesis using Nil by simp
  next
    case (Cons c cs)
    have m: "m ((c # cs) @ b) = m (c # cs)" using 1(2)[of a] Cons by simp
    show ?thesis
    proof (cases "m (c # cs)")
      case None
      have "re_sub m r (cs @ b) = re_sub m r cs @ re_sub m r b"
        using 1 Cons by (simp add: suffix_Cons)
      then show ?thesis using None m Cons by simp
    next
      case (Some x)
      obtain n g where x: "x = (n, g)" by (cases x)
      from len[of "c # cs" n g] Some x have n: "0 < n" "n \<le> length (c # cs)" by auto
      have sf: "suffix (drop (n - 1) cs) a" unfolding Cons
        by (metis suffix_drop suffix_ConsI)
      have "re_sub m r (drop (n - 1) cs @ b) = re_sub m r (drop (n - 1) cs) @ re_sub m r b"
        using 1(1)[rule_format, of "drop (n - 1) cs"] 1(2) Cons sf
        by (auto intro: suffix_order.trans)
      moreover have "drop (n - 1) (cs @ b) = drop (n - 1) cs @ b" using n by simp
      moreover have "take n (c # cs @ b) = take n (c # cs)" using n by (cases n) simp_all
      ultimately show ?thesis using Some x m n Cons by simp
    qed
  qed
qed

section \<open>Substitution: matches, skipped text and two rules in sequence\<close>

lemma re_sub_at_match:
  assumes "m (M @ u) = Some (n, g)" and "length M = n" and "0 < n"
  shows "re_sub m r (M @ u) = r M g @ re_sub m r u"
proof -
  from assms obtain c cs where M: "M = c # cs" by (cases M) auto
  have "take n (c # cs @ u) = M" using assms(2) M by auto
  moreover have "drop (n - 1) (cs @ u) = u" using assms(2) M by auto
  ultimately show ?thesis using assms M by simp
qed

lemma re_sub_skip: "no_match_in m w \<Longrightarrow> re_sub m r (w @ u) = w @ re_sub m r u"
  by (induction w) auto

lemma no_match_in_append:
  "no_match_in m w1 \<Longrightarrow> no_match_in m w2 \<Longrightarrow> no_match_in m (w1 @ w2)"
  by (induction w1) auto

lemma re_sub_commute:
  fixes ma :: "string \<Rightarrow> (nat \<times> 'g) option" and mb :: "string \<Rightarrow> (nat \<times> 'h) option"
  assumes la: "\<And>s n g. ma s = Some (n, g) \<Longrightarrow> 0 < n \<and> n \<le> length s \<and> mb s = None"
    and lb: "\<And>s n g. mb s = Some (n, g) \<Longrightarrow> 0 < n \<and> n \<le> length s \<and> ma s = None"
    and da: "\<And>s n g u. ma s = Some (n, g) \<Longrightarrow> ma (take n s @ u) = Some (n, g)"
    and db: "\<And>s n g u. mb s = Some (n, g) \<Longrightarrow> mb (take n s @ u) = Some (n, g)"
    and bma: "\<And>s n g u. ma s = Some (n, g) \<Longrightarrow> re_sub mb rb (take n s @ u) = take n s @ re_sub mb rb u"
    and bra: "\<And>s n g u. ma s = Some (n, g) \<Longrightarrow>
        re_sub mb rb (ra (take n s) g @ u) = ra (take n s) g @ re_sub mb rb u"
    and amb: "\<And>s n g u. mb s = Some (n, g) \<Longrightarrow> re_sub ma ra (take n s @ u) = take n s @ re_sub ma ra u"
    and arb: "\<And>s n g u. mb s = Some (n, g) \<Longrightarrow>
        re_sub ma ra (rb (take n s) g @ u) = rb (take n s) g @ re_sub ma ra u"
    and sab: "\<And>c cs. ma (c # cs) = None \<Longrightarrow> mb (c # cs) = None \<Longrightarrow> ma (c # re_sub mb rb cs) = None"
    and sba: "\<And>c cs. ma (c # cs) = None \<Longrightarrow> mb (c # cs) = None \<Longrightarrow> mb (c # re_sub ma ra cs) = None"
  shows "re_sub ma ra (re_sub mb rb s) = re_sub mb rb (re_sub ma ra s)"
proof (induction s rule: length_induct)
  case (1 s)
  have ea: "ma [] = None"
  proof (cases "ma []")
    case (Some x) then show ?thesis using la[of "[]" "fst x" "snd x"] by auto
  qed simp
  have eb: "mb [] = None"
  proof (cases "mb []")
    case (Some x) then show ?thesis using lb[of "[]" "fst x" "snd x"] by auto
  qed simp
  show ?case
  proof (cases s)
    case Nil
    then show ?thesis using ea eb by simp
  next
    case (Cons c cs)
    show ?thesis
    proof (cases "ma s")
      case (Some x)
      obtain n g where x: "x = (n, g)" by (cases x)
      from la[of s n g] Some x have n: "0 < n" "n \<le> length s" and nb: "mb s = None" by auto
      define M where "M = take n s"
      define t where "t = drop n s"
      have lM: "length M = n" using n by (auto simp: M_def)
      have lt: "length t < length s" using n by (simp add: t_def)
      have ih: "re_sub ma ra (re_sub mb rb t) = re_sub mb rb (re_sub ma ra t)"
        using 1 lt by blast
      have mM: "\<And>u. ma (M @ u) = Some (n, g)" using da[of s n g] Some x by (simp add: M_def)
      have a_s: "re_sub ma ra s = ra M g @ re_sub ma ra t"
        using re_sub_at_match[of ma M t n g ra, OF mM lM n(1)] by (simp add: M_def t_def)
      have b_s: "re_sub mb rb s = M @ re_sub mb rb t"
        using bma[of s n g t] Some x by (simp add: M_def t_def)
      have "re_sub ma ra (re_sub mb rb s) = ra M g @ re_sub ma ra (re_sub mb rb t)"
        unfolding b_s by (rule re_sub_at_match[of ma M "re_sub mb rb t" n g ra, OF mM lM n(1)])
      moreover have "re_sub mb rb (re_sub ma ra s) = ra M g @ re_sub mb rb (re_sub ma ra t)"
        unfolding a_s using bra[of s n g] Some x by (simp add: M_def)
      ultimately show ?thesis using ih by simp
    next
      case None
      note na = None
      show ?thesis
      proof (cases "mb s")
        case (Some x)
        obtain n g where x: "x = (n, g)" by (cases x)
        from lb[of s n g] Some x have n: "0 < n" "n \<le> length s" by auto
        define M where "M = take n s"
        define t where "t = drop n s"
        have lM: "length M = n" using n by (auto simp: M_def)
        have lt: "length t < length s" using n by (simp add: t_def)
        have ih: "re_sub ma ra (re_sub mb rb t) = re_sub mb rb (re_sub ma ra t)"
          using 1 lt by blast
        have mM: "\<And>u. mb (M @ u) = Some (n, g)" using db[of s n g] Some x by (simp add: M_def)
        have b_s: "re_sub mb rb s = rb M g @ re_sub mb rb t"
          using re_sub_at_match[of mb M t n g rb, OF mM lM n(1)] by (simp add: M_def t_def)
        have a_s: "re_sub ma ra s = M @ re_sub ma ra t"
          using amb[of s n g t] Some x by (simp add: M_def t_def)
        have "re_sub mb rb (re_sub ma ra s) = rb M g @ re_sub mb rb (re_sub ma ra t)"
          unfolding a_s by (rule re_sub_at_match[of mb M "re_sub ma ra t" n g rb, OF mM lM n(1)])
        moreover have "re_sub ma ra (re_sub mb rb s) = rb M g @ re_sub ma ra (re_sub mb rb t)"
          unfolding b_s using arb[of s n g] Some x by (simp add: M_def)
        ultimately show ?thesis using ih by simp
      next
        case None
        have ih: "re_sub ma ra (re_sub mb rb cs) = re_sub mb rb (re_sub ma ra cs)"
          using 1 Cons by simp
        have "ma (c # re_sub mb rb cs) = None" using sab na None Cons by simp
        moreover have "mb (c # re_sub ma ra cs) = None" using sba na None Cons by simp
        ultimately show ?thesis using na None Cons ih by simp
      qed
    qed
  qed
qed

section \<open>The reset rule of fix_fetch_mocks.py\<close>

lemma reset_skip:
  "add_wrap_rule (''mockFetch.mockReset();\<newline>    wrapFetchMock(mockFetch);'' @ u) =
   ''mockFetch.mockReset();\<newline>    wrapFetchMock(mockFetch);'' @ add_wrap_rule u"
  by (simp add: add_wrap_rule_def reset_pattern_def followed_by_wrap_def is_space_def)

lemma reset_pattern_SomeD:
  "reset_pattern s = Some (n, g) \<Longrightarrow> n = 22 \<and> prefix ''mockFetch.mockReset();'' s"
  by (auto simp: reset_pattern_def split: if_splits)

lemma reset_prefix_stable:
  "lit_free ''mockFetch.mockReset();'' p \<Longrightarrow> prefix p (add_wrap_rule s) = prefix p s"
  unfolding add_wrap_rule_def
  by (rule prefix_sub_stable[where L = "''mockFetch.mockReset();''"])
     (auto dest!: reset_pattern_SomeD simp: add_wrap_after_reset_def prefix_def)

lemma reset_lit_skip:
  "followed_by_wrap t \<Longrightarrow>
   add_wrap_rule (''mockFetch.mockReset();'' @ t) = ''mockFetch.mockReset();'' @ add_wrap_rule t"
  by (simp add: add_wrap_rule_def reset_pattern_def)

lemma reset_not_m: "c \<noteq> CHR ''m'' \<Longrightarrow> add_wrap_rule (c # cs) = c # add_wrap_rule cs"
  by (simp add: add_wrap_rule_def reset_pattern_def)

lemma followed_by_wrap_stable: "followed_by_wrap t \<Longrightarrow> followed_by_wrap (add_wrap_rule t)"
proof (induction t)
  case Nil
  then show ?case by (simp add: followed_by_wrap_def)
next
  case (Cons c cs)
  show ?case
  proof (cases "is_space c")
    case True
    then have "c \<noteq> CHR ''m''" by (auto simp: is_space_def)
    then show ?thesis using True Cons by (simp add: reset_not_m followed_by_wrap_def)
  next
    case False
    with Cons.prems have p: "prefix ''wrapFetchMock'' (c # cs)" by (simp add: followed_by_wrap_def)
    then have c: "c = CHR ''w''" by simp
    have "prefix ''wrapFetchMock'' (add_wrap_rule (c # cs))"
      using p by (subst reset_prefix_stable) simp_all
    then show ?thesis using c by (simp add: reset_not_m followed_by_wrap_def is_space_def)
  qed
qed

lemma reset_stable:
  assumes "reset_pattern (c # cs) = None"
  shows "reset_pattern (c # add_wrap_rule cs) = None"
proof (rule ccontr)
  assume "reset_pattern (c # add_wrap_rule cs) \<noteq> None"
  then have P: "prefix ''mockFetch.mockReset();'' (c # add_wrap_rule cs)"
    and F: "\<not> followed_by_wrap (drop 22 (c # add_wrap_rule cs))"
    by (auto simp: reset_pattern_def split: if_splits)
  have eq: "c # add_wrap_rule cs = add_wrap_rule (c # cs)"
    using assms by (simp add: add_wrap_rule_def)
  have lf: "lit_free ''mockFetch.mockReset();'' ''mockFetch.mockReset();''" by simp
  have "prefix ''mockFetch.mockReset();'' (c # cs)"
    using P[unfolded eq] by (simp only: reset_prefix_stable[OF lf])
  then obtain t where t: "c # cs = ''mockFetch.mockReset();'' @ t" by (auto simp: prefix_def)
  with assms have fw: "followed_by_wrap t" by (simp add: reset_pattern_def split: if_splits)
  have "add_wrap_rule (c # cs) = ''mockFetch.mockReset();'' @ add_wrap_rule t"
    unfolding t by (rule reset_lit_skip[OF fw])
  then have "drop 22 (c # add_wrap_rule cs) = add_wrap_rule t" unfolding eq by simp
  with F followed_by_wrap_stable[OF fw] show False by simp
qed

lemma add_wrap_rule_idem: "add_wrap_rule (add_wrap_rule s) = add_wrap_rule s"
  unfolding add_wrap_rule_def
proof (rule re_sub_idem)
  fix s n g u
  assume "reset_pattern s = Some (n, g)"
  then have n: "n = 22" and "prefix ''mockFetch.mockReset();'' s" by (auto dest: reset_pattern_SomeD)
  then have "take n s = ''mockFetch.mockReset();''" by (auto simp: prefix_def)
  then show "0 < n \<and> re_sub reset_pattern add_wrap_after_reset (add_wrap_after_reset (take n s) g @ u) =
          add_wrap_after_reset (take n s) g @ re_sub reset_pattern add_wrap_after_reset u"
    using n reset_skip[of u] by (simp add: add_wrap_after_reset_def add_wrap_rule_def)
next
  fix c cs
  assume "reset_pattern (c # cs) = None"
  then show "reset_pattern (c # re_sub reset_pattern add_wrap_after_reset cs) = None"
    using reset_stable by (simp add: add_wrap_rule_def)
next
  show "reset_pattern [] = None" by (simp add: reset_pattern_def)
qed

lemma reset_no_border:
  "''mockFetch.mockReset();'' = t @ us \<Longrightarrow> t \<noteq> [] \<Longrightarrow> prefix us (''mockFetch.mockReset();'' @ z)
     \<Longrightarrow> us = []"
  by (auto simp: Cons_eq_append_conv)

lemma wrap_no_m:
  "''wrapFetchMock'' = d @ e \<Longrightarrow> prefix e (CHR ''m'' # z) \<Longrightarrow> e = []"
  by (auto simp: Cons_eq_append_conv)

lemma not_space_m: "\<not> is_space CHR ''m''"
  by (simp add: is_space_def)

lemma followed_by_wrap_ctx:
  "followed_by_wrap (t1 @ ''mockFetch.mockReset();'' @ z) = followed_by_wrap t1"
proof (cases "\<forall>c\<in>set t1. is_space c")
  case True
  then have a: "dropWhile is_space (t1 @ ''mockFetch.mockReset();'' @ z) = ''mockFetch.mockReset();'' @ z"
    by (simp add: dropWhile_append2 not_space_m)
  have b: "dropWhile is_space t1 = []" using True by simp
  show ?thesis unfolding followed_by_wrap_def a b by simp
next
  case False
  then have d: "dropWhile is_space (t1 @ ''mockFetch.mockReset();'' @ z) =
      dropWhile is_space t1 @ ''mockFetch.mockReset();'' @ z"
    by (auto simp: dropWhile_append1)
  show ?thesis unfolding followed_by_wrap_def d
    by (auto simp: prefix_append dest: wrap_no_m)
qed

lemma reset_pattern_ctx:
  assumes "t \<noteq> []"
  shows "reset_pattern (t @ ''mockFetch.mockReset();'' @ z) = reset_pattern t"
proof (cases "prefix ''mockFetch.mockReset();'' t")
  case True
  then obtain t1 where t: "t = ''mockFetch.mockReset();'' @ t1" by (auto simp: prefix_def)
  show ?thesis unfolding t using followed_by_wrap_ctx[of t1 z] by (simp add: reset_pattern_def)
next
  case False
  have "\<not> prefix ''mockFetch.mockReset();'' (t @ ''mockFetch.mockReset();'' @ z)"
  proof
    assume "prefix ''mockFetch.mockReset();'' (t @ ''mockFetch.mockReset();'' @ z)"
    then obtain us where us: "''mockFetch.mockReset();'' = t @ us"
      "prefix us (''mockFetch.mockReset();'' @ z)"
      using False unfolding prefix_append by blast
    from reset_no_border[OF us(1) assms us(2)] us(1) False show False by simp
  qed
  then show ?thesis using False by (simp add: reset_pattern_def)
qed

lemma add_wrap_rule_at:
  assumes "\<not> followed_by_wrap post"
  shows "add_wrap_rule (pre @ ''mockFetch.mockReset();'' @ post) =
     add_wrap_rule pre @ ''mockFetch.mockReset();\<newline>    wrapFetchMock(mockFetch);'' @ add_wrap_rule post"
proof -
  have "add_wrap_rule (pre @ ''mockFetch.mockReset();'' @ post) =
      add_wrap_rule pre @ add_wrap_rule (''mockFetch.mockReset();'' @ post)"
    unfolding add_wrap_rule_def
  proof (rule re_sub_append)
    fix t :: string
    assume "t \<noteq> []"
    then show "reset_pattern (t @ ''mockFetch.mockReset();'' @ post) = reset_pattern t"
      by (rule reset_pattern_ctx)
  next
    fix s n g
    assume "reset_pattern s = Some (n, g)"
    then show "0 < n \<and> n \<le> length s"
      by (auto dest!: reset_pattern_SomeD simp: prefix_def)
  qed
  moreover have "add_wrap_rule (''mockFetch.mockReset();'' @ post) =
      ''mockFetch.mockReset();\<newline>    wrapFetchMock(mockFetch);'' @ add_wrap_rule post"
    using assms by (simp add: add_wrap_rule_def reset_pattern_def add_wrap_after_reset_def)
  ultimately show ?thesis by simp
qed

section \<open>Claims about the reset rule\<close>

text \<open>
  C5. Wherever the content holds \<open>mockFetch.mockReset();\<close> that is not already followed
  by \<open>wrapFetchMock\<close> (after optional white space), the rule of lines 73 to 80 of
  fix_fetch_mocks.py puts \<open>mockFetch.mockReset();\<close>, a line feed, four spaces and
  \<open>wrapFetchMock(mockFetch);\<close> at that place, the text before and behind it being
  rewritten by the same rule on its own; and running the rule on the output changes
  nothing any more.
\<close>

theorem add_wrap_after_reset_at_location:
  assumes "\<not> followed_by_wrap post"
  shows "add_wrap_rule (pre @ ''mockFetch.mockReset();'' @ post) =
           add_wrap_rule pre @ ''mockFetch.mockReset();\<newline>    wrapFetchMock(mockFetch);''
             @ add_wrap_rule post
         \<and> add_wrap_rule (add_wrap_rule (pre @ ''mockFetch.mockReset();'' @ post)) =
           add_wrap_rule (pre @ ''mockFetch.mockReset();'' @ post)"
  by (rule conjI) (rule add_wrap_rule_at[OF assms], rule add_wrap_rule_idem)

theorem add_wrap_after_reset_at_location_witness:
  "\<not> followed_by_wrap ''\<newline>  });''
   \<and> add_wrap_rule (''  beforeEach(() => {\<newline>    '' @ ''mockFetch.mockReset();'' @ ''\<newline>  });'') =
       ''  beforeEach(() => {\<newline>    mockFetch.mockReset();\<newline>    wrapFetchMock(mockFetch);\<newline>  });''
   \<and> add_wrap_rule (add_wrap_rule (''  beforeEach(() => {\<newline>    '' @ ''mockFetch.mockReset();'' @ ''\<newline>  });'')) =
       add_wrap_rule (''  beforeEach(() => {\<newline>    '' @ ''mockFetch.mockReset();'' @ ''\<newline>  });'')"
proof -
  have h: "\<not> followed_by_wrap ''\<newline>  });''"
    by (simp add: followed_by_wrap_def is_space_def)
  have pre: "add_wrap_rule ''  beforeEach(() => {\<newline>    '' = ''  beforeEach(() => {\<newline>    ''"
    by (simp add: add_wrap_rule_def reset_pattern_def)
  have post: "add_wrap_rule ''\<newline>  });'' = ''\<newline>  });''"
    by (simp add: add_wrap_rule_def reset_pattern_def)
  note t = add_wrap_after_reset_at_location[OF h, of "''  beforeEach(() => {\<newline>    ''"]
  from t have a: "add_wrap_rule (''  beforeEach(() => {\<newline>    '' @ ''mockFetch.mockReset();'' @ ''\<newline>  });'') =
       ''  beforeEach(() => {\<newline>    mockFetch.mockReset();\<newline>    wrapFetchMock(mockFetch);\<newline>  });''"
    unfolding pre post by simp
  from t have b: "add_wrap_rule (add_wrap_rule (''  beforeEach(() => {\<newline>    '' @ ''mockFetch.mockReset();'' @ ''\<newline>  });'')) =
       add_wrap_rule (''  beforeEach(() => {\<newline>    '' @ ''mockFetch.mockReset();'' @ ''\<newline>  });'')"
    by (rule conjunct2)
  from h a b show ?thesis by blast
qed

section \<open>The two patterns of fix_mock_responses.py\<close>

lemma pattern1_eq: "pattern1 = match_call lit1"
  by (simp add: pattern1_def lit1_def)

lemma pattern2_eq: "pattern2 = match_call lit2"
  by (simp add: pattern2_def lit2_def)

lemma replace_simple_eq: "replace_simple = call_repl lit1"
  by (intro ext) (simp add: replace_simple_def call_repl_def paginated_def lit1_def)

lemma replace_promise_eq: "replace_promise = call_repl lit2"
  by (intro ext) (simp add: replace_promise_def call_repl_def paginated_def lit2_def)

lemma wrap_array_eq: "wrap_array_in_paginated_response c = wrap_with lit2 (wrap_with lit1 c)"
  by (simp add: wrap_array_in_paginated_response_def wrap_with_def
      pattern1_eq pattern2_eq replace_simple_eq replace_promise_eq)

lemma not_ident_paren: "\<not> is_ident_char CHR '')''"
  by (simp add: is_ident_char_def)

lemma match_call_SomeD:
  assumes "match_call lit s = Some (n, X)"
  shows "prefix lit s" and "n = length lit + length X + 2" and "X \<noteq> []"
    and "\<forall>c\<in>set X. is_ident_char c" and "is_ident_start (hd X)"
    and "take n s = lit @ X @ ''))''"
proof -
  from assms show p: "prefix lit s" by (simp add: match_call_def split: if_splits)
  then obtain rest where s: "s = lit @ rest" by (auto simp: prefix_def)
  from assms s have X: "X = takeWhile is_ident_char rest"
    and n: "n = length lit + length X + 2" and ne: "X \<noteq> []" and st: "is_ident_start (hd X)"
    and pp: "prefix ''))'' (drop (length X) rest)"
    by (auto simp: match_call_def Let_def split: if_splits)
  show "n = length lit + length X + 2" by (rule n)
  show "X \<noteq> []" by (rule ne)
  show "is_ident_start (hd X)" by (rule st)
  show "\<forall>c\<in>set X. is_ident_char c" unfolding X by (auto dest: set_takeWhileD)
  have "rest = X @ drop (length X) rest" unfolding X
    by (metis append_take_drop_id takeWhile_eq_take)
  with pp obtain r' where "rest = X @ ''))'' @ r'"
    unfolding prefix_def by metis
  then show "take n s = lit @ X @ ''))''" using s n by simp
qed

lemma match_call_I:
  assumes "X \<noteq> []" and "\<forall>c\<in>set X. is_ident_char c" and "is_ident_start (hd X)"
  shows "match_call lit (lit @ X @ ''))'' @ u) = Some (length lit + length X + 2, X)"
proof -
  have "takeWhile is_ident_char (X @ ''))'' @ u) = X"
    using assms(2) by (simp add: takeWhile_append2 not_ident_paren)
  then show ?thesis using assms by (simp add: match_call_def)
qed

lemma match_call_det:
  assumes "match_call lit s = Some (n, X)"
  shows "match_call lit (take n s @ u) = Some (n, X)"
  using match_call_SomeD[OF assms] match_call_I[of X lit u] by simp

lemma match_call_len:
  "match_call lit s = Some (n, X) \<Longrightarrow> 0 < n \<and> n \<le> length s"
proof -
  assume a: "match_call lit s = Some (n, X)"
  from match_call_SomeD(2,6)[OF a] have "length (take n s) = n" by simp
  moreover have "0 < n" using match_call_SomeD(2)[OF a] by simp
  ultimately show ?thesis by simp
qed

lemma takeWhile_ident_lit:
  "call_lit lit \<Longrightarrow> takeWhile is_ident_char (lit @ rest) = takeWhile is_ident_char lit"
  "call_lit lit \<Longrightarrow> drop (length (takeWhile is_ident_char lit)) lit = CHR ''.'' # drop (Suc (length (takeWhile is_ident_char lit))) lit"
  "call_lit lit \<Longrightarrow> \<not> prefix ''l'' (drop (Suc (length (takeWhile is_ident_char lit))) lit)"
  "call_lit lit \<Longrightarrow> drop (Suc (length (takeWhile is_ident_char lit))) lit \<noteq> []"
  by (auto simp: call_lit_def lit1_def lit2_def is_ident_char_def)

lemma lit_not_in_ident_run:
  assumes lit: "call_lit lit" and X: "\<forall>c\<in>set X. is_ident_char c" and d: "\<not> is_ident_char d"
    and du: "d \<noteq> CHR ''.'' \<or> prefix ''l'' u"
  shows "\<not> prefix lit (X @ d # u)"
proof
  assume "prefix lit (X @ d # u)"
  then obtain rest where r: "X @ d # u = lit @ rest" by (auto simp: prefix_def)
  define k where "k = takeWhile is_ident_char lit"
  have "takeWhile is_ident_char (X @ d # u) = X" using X d by (simp add: takeWhile_append2)
  then have Xk: "X = k" using r takeWhile_ident_lit(1)[OF lit, of rest] by (simp add: k_def)
  have "lit = k @ drop (length k) lit" unfolding k_def
    by (metis append_take_drop_id takeWhile_eq_take)
  then have "lit = k @ CHR ''.'' # drop (Suc (length k)) lit"
    using takeWhile_ident_lit(2)[OF lit] by (simp add: k_def)
  with r Xk have e: "d # u = CHR ''.'' # drop (Suc (length k)) lit @ rest"
    by (metis append_Cons append_assoc same_append_eq)
  then have "d = CHR ''.''" and u: "u = drop (Suc (length k)) lit @ rest" by auto
  with du have "prefix ''l'' u" by simp
  with u takeWhile_ident_lit(3,4)[OF lit] show False
    by (cases "drop (Suc (length k)) lit") (auto simp: k_def)
qed

lemma no_match_ident_run:
  assumes lit: "call_lit lit" and X: "\<forall>c\<in>set X. is_ident_char c" and d: "\<not> is_ident_char d"
    and du: "d \<noteq> CHR ''.''"
  shows "no_match_in (match_call lit) (X @ [d])"
  using X
proof (induction X)
  case Nil
  show ?case using lit_not_in_ident_run[OF lit, of "[]" d] d du
    by (simp add: match_call_def)
next
  case (Cons x X)
  have "\<not> prefix lit ((x # X) @ d # u)" for u
    using lit_not_in_ident_run[OF lit, of "x # X" d u] Cons.prems d du by simp
  then show ?case using Cons by (simp add: match_call_def)
qed

lemma no_match_ident_dot_l:
  assumes lit: "call_lit lit" and X: "\<forall>c\<in>set X. is_ident_char c"
  shows "no_match_in (match_call lit) (X @ ''.l'')"
  using X
proof (induction X)
  case Nil
  show ?case using lit by (auto simp: match_call_def call_lit_def lit1_def lit2_def)
next
  case (Cons x X)
  have "\<not> prefix lit ((x # X) @ CHR ''.'' # CHR ''l'' # u)" for u
    using lit_not_in_ident_run[OF lit, of "x # X" "CHR ''.''" "CHR ''l'' # u"] Cons.prems
    by (simp add: is_ident_char_def)
  then show ?case using Cons by (simp add: match_call_def)
qed

lemma no_match_lit_brace:
  "call_lit la \<Longrightarrow> call_lit lb \<Longrightarrow> no_match_in (match_call lb) (la @ ''{ content: '')"
  unfolding call_lit_def
  by (elim disjE; simp add: lit1_def lit2_def match_call_def is_ident_char_def)

lemma no_match_total_elements:
  "call_lit lb \<Longrightarrow> no_match_in (match_call lb) '' totalElements: ''"
  unfolding call_lit_def
  by (elim disjE; simp add: lit1_def lit2_def match_call_def)

lemma no_match_tail:
  "call_lit lb \<Longrightarrow>
   no_match_in (match_call lb) ''ength, totalPages: 1, size: 1000, number: 0 }))''"
  unfolding call_lit_def
  by (elim disjE; simp add: lit1_def lit2_def match_call_def)

lemma no_match_paren: "call_lit lb \<Longrightarrow> no_match_in (match_call lb) '')''"
  unfolding call_lit_def
  by (elim disjE; simp add: lit1_def lit2_def match_call_def)

lemma no_match_other_lit:
  "call_lit la \<Longrightarrow> call_lit lb \<Longrightarrow> la \<noteq> lb \<Longrightarrow> no_match_in (match_call lb) la"
  unfolding call_lit_def
  by (elim disjE; simp add: lit1_def lit2_def match_call_def)

lemma no_match_tl_lit: "call_lit la \<Longrightarrow> call_lit lb \<Longrightarrow> no_match_in (match_call lb) (tl la)"
  unfolding call_lit_def
  by (elim disjE; simp add: lit1_def lit2_def match_call_def)

lemma lit_free_lit: "call_lit la \<Longrightarrow> call_lit lb \<Longrightarrow> lit_free lb la"
  unfolding call_lit_def
  by (elim disjE; simp add: lit1_def lit2_def)

lemma call_lit_facts:
  "call_lit lit \<Longrightarrow> lit \<noteq> []"
  "call_lit lit \<Longrightarrow> CHR ''.'' \<in> set lit"
  "call_lit lit \<Longrightarrow> is_ident_char (hd lit)"
  "call_lit la \<Longrightarrow> call_lit lb \<Longrightarrow> la \<noteq> lb \<Longrightarrow> hd la \<noteq> hd lb"
  by (auto simp: call_lit_def lit1_def lit2_def is_ident_char_def)

lemma call_repl_prefix:
  assumes "match_call lb s = Some (n, g)"
  shows "prefix lb (call_repl lb (take n s) g)"
  using match_call_SomeD(6)[OF assms] by (simp add: call_repl_def paginated_def)

lemma wrap_prefix_stable:
  assumes "call_lit lb" and "lit_free lb p"
  shows "prefix p (wrap_with lb s) = prefix p s"
  unfolding wrap_with_def
proof (rule prefix_sub_stable[where L = lb])
  fix s n g
  assume m: "match_call lb s = Some (n, g)"
  show "0 < n \<and> prefix lb s \<and> prefix lb (call_repl lb (take n s) g)"
    using match_call_len[OF m] match_call_SomeD(1)[OF m] call_repl_prefix[OF m] by simp
next
  show "lb \<noteq> []" using assms(1) by (rule call_lit_facts(1))
next
  show "lit_free lb p" by (rule assms(2))
qed

lemma lit_free_no_dot:
  assumes "call_lit lit" and "CHR ''.'' \<notin> set p"
  shows "lit_free lit p"
  using assms(2)
proof (induction p)
  case Nil
  show ?case by simp
next
  case (Cons x xs)
  have "\<not> prefix lit (x # xs)"
    using call_lit_facts(2)[OF assms(1)] Cons.prems set_mono_prefix by blast
  then show ?case using Cons by simp
qed

lemma not_ident_chars:
  "\<not> is_ident_char CHR '',''" "\<not> is_ident_char CHR ''.''"
  by (simp_all add: is_ident_char_def)

lemma no_match_paginated:
  assumes la: "call_lit la" and lb: "call_lit lb" and X: "\<forall>c\<in>set X. is_ident_char c"
  shows "no_match_in (match_call lb) (paginated la X)"
proof -
  have e: "paginated la X = (la @ ''{ content: '') @ (X @ '','') @ '' totalElements: ''
      @ (X @ ''.l'') @ ''ength, totalPages: 1, size: 1000, number: 0 }))''"
    by (simp add: paginated_def)
  show ?thesis unfolding e
    by (intro no_match_in_append no_match_lit_brace[OF la lb]
        no_match_ident_run[OF lb X not_ident_chars(1)] no_match_total_elements[OF lb]
        no_match_ident_dot_l[OF lb X] no_match_tail[OF lb]) simp
qed

lemma no_match_other_call:
  assumes la: "call_lit la" and lb: "call_lit lb" and ne: "la \<noteq> lb"
    and X: "\<forall>c\<in>set X. is_ident_char c"
  shows "no_match_in (match_call lb) (la @ X @ ''))'')"
proof -
  have e: "la @ X @ ''))'' = la @ (X @ '')'') @ '')''" by simp
  show ?thesis unfolding e
    by (intro no_match_in_append no_match_other_lit[OF la lb ne]
        no_match_ident_run[OF lb X not_ident_paren] no_match_paren[OF lb]) simp
qed

lemma wrap_skip_paginated:
  assumes "call_lit la" and "call_lit lb" and "\<forall>c\<in>set X. is_ident_char c"
  shows "wrap_with lb (paginated la X @ u) = paginated la X @ wrap_with lb u"
  unfolding wrap_with_def by (rule re_sub_skip[OF no_match_paginated[OF assms]])

lemma wrap_skip_other_call:
  assumes "call_lit la" and "call_lit lb" and "la \<noteq> lb" and "\<forall>c\<in>set X. is_ident_char c"
  shows "wrap_with lb ((la @ X @ ''))'') @ u) = (la @ X @ ''))'') @ wrap_with lb u"
  unfolding wrap_with_def by (rule re_sub_skip[OF no_match_other_call[OF assms]])

lemma wrap_skip_lit:
  assumes la: "call_lit la" and lb: "call_lit lb" and n: "match_call lb (la @ t) = None"
  shows "wrap_with lb (la @ t) = la @ wrap_with lb t"
proof -
  obtain c cs where l: "la = c # cs" using call_lit_facts(1)[OF la] by (cases la) auto
  have "no_match_in (match_call lb) cs" using no_match_tl_lit[OF la lb] l by simp
  then have "re_sub (match_call lb) (call_repl lb) (cs @ t) = cs @ re_sub (match_call lb) (call_repl lb) t"
    by (rule re_sub_skip)
  then show ?thesis using n l by (simp add: wrap_with_def)
qed

lemma wrap_stable:
  assumes la: "call_lit la" and lb: "call_lit lb"
    and na: "match_call la (c # cs) = None" and nb: "match_call lb (c # cs) = None"
  shows "match_call la (c # wrap_with lb cs) = None"
proof (rule ccontr)
  assume "match_call la (c # wrap_with lb cs) \<noteq> None"
  then obtain n X where m: "match_call la (c # wrap_with lb cs) = Some (n, X)" by auto
  have eq: "c # wrap_with lb cs = wrap_with lb (c # cs)" using nb by (simp add: wrap_with_def)
  note d = match_call_SomeD[OF m]
  have "prefix la (wrap_with lb (c # cs))" using d(1) eq by simp
  then have "prefix la (c # cs)"
    by (simp only: wrap_prefix_stable[OF lb lit_free_lit[OF la lb]])
  then obtain t where t: "c # cs = la @ t" by (auto simp: prefix_def)
  have w: "wrap_with lb (c # cs) = la @ wrap_with lb t"
    unfolding t using nb t by (intro wrap_skip_lit[OF la lb]) simp
  have "take n (la @ wrap_with lb t) = la @ X @ ''))''" using d(6) eq w by simp
  then have "prefix (la @ X @ ''))'') (la @ wrap_with lb t)"
    by (metis take_is_prefix)
  then have p: "prefix (X @ ''))'') (wrap_with lb t)" by simp
  have "CHR ''.'' \<notin> set (X @ ''))'')" using d(4) not_ident_chars(2) by auto
  then have "lit_free lb (X @ ''))'')" by (rule lit_free_no_dot[OF lb])
  then have "prefix (X @ ''))'') t" using p by (simp only: wrap_prefix_stable[OF lb])
  then obtain r where "t = X @ ''))'' @ r" by (auto simp: prefix_def)
  then have "match_call la (c # cs) = Some (length la + length X + 2, X)"
    unfolding t using match_call_I[OF d(3) d(4) d(5), of la r] by simp
  with na show False by simp
qed

lemma call_repl_cases:
  assumes m: "match_call la s = Some (n, X)"
  shows "call_repl la (take n s) X = la @ X @ ''))'' \<or> call_repl la (take n s) X = paginated la X"
  using match_call_SomeD(6)[OF m] by (simp add: call_repl_def)

lemma wrap_with_idem:
  assumes la: "call_lit la"
  shows "wrap_with la (wrap_with la s) = wrap_with la s"
  unfolding wrap_with_def
proof (rule re_sub_idem)
  fix s n g u
  assume m: "match_call la s = Some (n, g)"
  note d = match_call_SomeD[OF m]
  have n: "0 < n" using match_call_len[OF m] by simp
  have "re_sub (match_call la) (call_repl la) (call_repl la (take n s) g @ u) =
      call_repl la (take n s) g @ re_sub (match_call la) (call_repl la) u"
  proof (cases "call_repl la (take n s) g = take n s")
    case True
    have l: "length (take n s) = n" using match_call_len[OF m] by simp
    show ?thesis unfolding True
      using re_sub_at_match[of "match_call la" "take n s" u n g "call_repl la",
          OF match_call_det[OF m] l n] True by simp
  next
    case False
    then have "call_repl la (take n s) g = paginated la g"
      using call_repl_cases[OF m] d(6) by auto
    then show ?thesis using wrap_skip_paginated[OF la la d(4), of u]
      by (simp add: wrap_with_def)
  qed
  then show "0 < n \<and> re_sub (match_call la) (call_repl la) (call_repl la (take n s) g @ u) =
      call_repl la (take n s) g @ re_sub (match_call la) (call_repl la) u"
    using n by simp
next
  fix c cs
  assume "match_call la (c # cs) = None"
  then show "match_call la (c # re_sub (match_call la) (call_repl la) cs) = None"
    using wrap_stable[OF la la] by (simp add: wrap_with_def)
next
  show "match_call la [] = None"
    using call_lit_facts(1)[OF la] by (simp add: match_call_def)
qed

lemma match_call_disjoint:
  assumes la: "call_lit la" and lb: "call_lit lb" and ne: "la \<noteq> lb"
    and m: "match_call la s = Some (n, g)"
  shows "match_call lb s = None"
proof -
  have "prefix la s" by (rule match_call_SomeD(1)[OF m])
  then have "hd s = hd la" using call_lit_facts(1)[OF la] by (auto simp: prefix_def)
  moreover have "hd s = hd lb" if "prefix lb s"
    using that call_lit_facts(1)[OF lb] by (auto simp: prefix_def)
  ultimately have "\<not> prefix lb s" using call_lit_facts(4)[OF la lb ne] by auto
  then show ?thesis by (simp add: match_call_def)
qed

lemma wrap_skip_repl_other:
  assumes la: "call_lit la" and lb: "call_lit lb" and ne: "la \<noteq> lb"
    and m: "match_call la s = Some (n, g)"
  shows "wrap_with lb (take n s @ u) = take n s @ wrap_with lb u"
    and "wrap_with lb (call_repl la (take n s) g @ u) = call_repl la (take n s) g @ wrap_with lb u"
proof -
  note d = match_call_SomeD[OF m]
  show a: "wrap_with lb (take n s @ u) = take n s @ wrap_with lb u"
    unfolding d(6) by (rule wrap_skip_other_call[OF la lb ne d(4)])
  show "wrap_with lb (call_repl la (take n s) g @ u) = call_repl la (take n s) g @ wrap_with lb u"
  proof (cases "call_repl la (take n s) g = take n s")
    case True
    then show ?thesis using a by simp
  next
    case False
    then have "call_repl la (take n s) g = paginated la g"
      using call_repl_cases[OF m] d(6) by auto
    then show ?thesis using wrap_skip_paginated[OF la lb d(4), of u] by simp
  qed
qed

lemma wrap_with_commute:
  assumes la: "call_lit la" and lb: "call_lit lb" and ne: "la \<noteq> lb"
  shows "wrap_with la (wrap_with lb s) = wrap_with lb (wrap_with la s)"
  unfolding wrap_with_def
proof (rule re_sub_commute)
  fix s n g
  assume m: "match_call la s = Some (n, g)"
  show "0 < n \<and> n \<le> length s \<and> match_call lb s = None"
    using match_call_len[OF m] match_call_disjoint[OF la lb ne m] by simp
next
  fix s n g
  assume m: "match_call lb s = Some (n, g)"
  show "0 < n \<and> n \<le> length s \<and> match_call la s = None"
    using match_call_len[OF m] match_call_disjoint[OF lb la ne[symmetric] m] by simp
next
  fix s n g u
  assume "match_call la s = Some (n, g)"
  then show "match_call la (take n s @ u) = Some (n, g)" by (rule match_call_det)
next
  fix s n g u
  assume "match_call lb s = Some (n, g)"
  then show "match_call lb (take n s @ u) = Some (n, g)" by (rule match_call_det)
next
  fix s n g u
  assume m: "match_call la s = Some (n, g)"
  show "re_sub (match_call lb) (call_repl lb) (take n s @ u) =
      take n s @ re_sub (match_call lb) (call_repl lb) u"
    using wrap_skip_repl_other(1)[OF la lb ne m] by (simp add: wrap_with_def)
next
  fix s n g u
  assume m: "match_call la s = Some (n, g)"
  show "re_sub (match_call lb) (call_repl lb) (call_repl la (take n s) g @ u) =
      call_repl la (take n s) g @ re_sub (match_call lb) (call_repl lb) u"
    using wrap_skip_repl_other(2)[OF la lb ne m] by (simp add: wrap_with_def)
next
  fix s n g u
  assume m: "match_call lb s = Some (n, g)"
  show "re_sub (match_call la) (call_repl la) (take n s @ u) =
      take n s @ re_sub (match_call la) (call_repl la) u"
    using wrap_skip_repl_other(1)[OF lb la ne[symmetric] m] by (simp add: wrap_with_def)
next
  fix s n g u
  assume m: "match_call lb s = Some (n, g)"
  show "re_sub (match_call la) (call_repl la) (call_repl lb (take n s) g @ u) =
      call_repl lb (take n s) g @ re_sub (match_call la) (call_repl la) u"
    using wrap_skip_repl_other(2)[OF lb la ne[symmetric] m] by (simp add: wrap_with_def)
next
  fix c cs
  assume "match_call la (c # cs) = None" and "match_call lb (c # cs) = None"
  then show "match_call la (c # re_sub (match_call lb) (call_repl lb) cs) = None"
    using wrap_stable[OF la lb] by (simp add: wrap_with_def)
next
  fix c cs
  assume "match_call la (c # cs) = None" and "match_call lb (c # cs) = None"
  then show "match_call lb (c # re_sub (match_call la) (call_repl la) cs) = None"
    using wrap_stable[OF lb la] by (simp add: wrap_with_def)
qed

lemma call_lit_12: "call_lit lit1" "call_lit lit2" "lit1 \<noteq> lit2"
  by (simp_all add: call_lit_def lit1_def lit2_def)

lemma wrap_array_idem:
  "wrap_array_in_paginated_response (wrap_array_in_paginated_response c) =
   wrap_array_in_paginated_response c"
proof -
  have "wrap_with lit2 (wrap_with lit1 (wrap_with lit2 (wrap_with lit1 c))) =
      wrap_with lit2 (wrap_with lit2 (wrap_with lit1 (wrap_with lit1 c)))"
    by (simp only: wrap_with_commute[OF call_lit_12(1) call_lit_12(2) call_lit_12(3)])
  also have "\<dots> = wrap_with lit2 (wrap_with lit1 c)"
    by (simp only: wrap_with_idem[OF call_lit_12(1)] wrap_with_idem[OF call_lit_12(2)])
  finally show ?thesis by (simp only: wrap_array_eq)
qed

section \<open>A call site inside a content\<close>

lemma no_overlap_suffix:
  assumes "no_overlap la w" and "suffix us w" and "us \<noteq> []"
  shows "\<not> prefix us (la @ z)"
  using assms
proof (induction w)
  case Nil
  then show ?case by simp
next
  case (Cons c cs)
  show ?case
  proof (cases "us = c # cs")
    case True
    have "prefix la (la @ z)" by simp
    then have "prefix us la \<or> prefix la us" if "prefix us (la @ z)"
      using that prefix_same_cases by blast
    then show ?thesis using Cons.prems(1) True by auto
  next
    case False
    then have "suffix us cs" using Cons.prems(2) by (simp add: suffix_Cons)
    then show ?thesis using Cons by simp
  qed
qed

lemma lit_no_overlap: "call_lit la \<Longrightarrow> call_lit lb \<Longrightarrow> no_overlap la (tl lb)"
  unfolding call_lit_def
  by (elim disjE; simp add: lit1_def lit2_def)

lemma lit_no_border:
  assumes la: "call_lit la" and lb: "call_lit lb" and e: "lb = t @ us" and t: "t \<noteq> []"
    and us: "us \<noteq> []"
  shows "\<not> prefix us (la @ z)"
proof -
  obtain c t' where "t = c # t'" using t by (cases t) auto
  then have "suffix us (tl lb)" using e by (simp add: suffix_def)
  then show ?thesis using no_overlap_suffix[OF lit_no_overlap[OF la lb] _ us] by blast
qed

lemma lit_no_paren: "call_lit la \<Longrightarrow> CHR '')'' \<notin> set la"
  unfolding call_lit_def by (elim disjE; simp add: lit1_def lit2_def)

lemma match_call_ctx:
  assumes la: "call_lit la" and lb: "call_lit lb" and t: "t \<noteq> []"
  shows "match_call lb (t @ la @ z) = match_call lb t"
proof (cases "match_call lb t")
  case (Some x)
  obtain n X where x: "x = (n, X)" by (cases x)
  note d = match_call_SomeD[OF Some[unfolded x]]
  have "t = (lb @ X @ ''))'') @ drop n t" using d(6) by (metis append_take_drop_id)
  then have e: "t @ la @ z = lb @ X @ ''))'' @ (drop n t @ la @ z)" by (metis append_assoc)
  have "match_call lb (t @ la @ z) = Some (n, X)"
    unfolding e d(2) by (rule match_call_I[OF d(3) d(4) d(5)])
  then show ?thesis using Some x by simp
next
  case None
  have "match_call lb (t @ la @ z) = None"
  proof (rule ccontr)
    assume "match_call lb (t @ la @ z) \<noteq> None"
    then obtain n X where m: "match_call lb (t @ la @ z) = Some (n, X)" by auto
    note d = match_call_SomeD[OF m]
    show False
    proof (cases "prefix lb t")
      case True
      then obtain t1 where t1: "t = lb @ t1" by (auto simp: prefix_def)
      have "take n (lb @ t1 @ la @ z) = lb @ X @ ''))''" using d(6) t1 by simp
      then have "prefix (lb @ X @ ''))'') (lb @ t1 @ la @ z)" by (metis take_is_prefix)
      then have "prefix (X @ ''))'') (t1 @ la @ z)" by simp
      then consider "prefix (X @ ''))'') t1"
        | us where "X @ ''))'' = t1 @ us" "prefix us (la @ z)" "us \<noteq> []"
        unfolding prefix_append by (metis append_Nil2 prefix_order.refl)
      then show False
      proof cases
        case 1
        then obtain r where "t1 = X @ ''))'' @ r" by (auto simp: prefix_def)
        then have "match_call lb t = Some (length lb + length X + 2, X)"
          unfolding t1 using match_call_I[OF d(3) d(4) d(5), of lb r] by simp
        with None show False by simp
      next
        case 2
        have su: "set us \<subseteq> set (X @ ''))'')" using 2(1) by (metis set_append Un_upper2)
        have dot: "CHR ''.'' \<notin> set us" using su d(4) not_ident_chars(2) by auto
        have "last us = last (X @ ''))'')" using 2(1) 2(3) by (metis last_appendR)
        then have lp: "last us = CHR '')''" by simp
        have "prefix la (la @ z)" by simp
        then have "prefix us la \<or> prefix la us" using 2(2) prefix_same_cases by blast
        then show False
        proof
          assume "prefix us la"
          then have "set us \<subseteq> set la" by (rule set_mono_prefix)
          moreover have "last us \<in> set us" using 2(3) by simp
          ultimately show False using lit_no_paren[OF la] lp by auto
        next
          assume "prefix la us"
          then have "set la \<subseteq> set us" by (rule set_mono_prefix)
          then show False using call_lit_facts(2)[OF la] dot by auto
        qed
      qed
    next
      case False
      then obtain us where us: "lb = t @ us" "prefix us (la @ z)"
        using d(1) unfolding prefix_append by blast
      have "us \<noteq> []" using us(1) False by auto
      from lit_no_border[OF la lb us(1) t this] us(2) show False by blast
    qed
  qed
  then show ?thesis using None by simp
qed

lemma wrap_with_append_lit:
  assumes la: "call_lit la" and lb: "call_lit lb"
  shows "wrap_with lb (pre @ la @ z) = wrap_with lb pre @ wrap_with lb (la @ z)"
  unfolding wrap_with_def
proof (rule re_sub_append)
  fix t :: string
  assume "t \<noteq> []"
  then show "match_call lb (t @ la @ z) = match_call lb t"
    by (rule match_call_ctx[OF la lb])
next
  fix s n g
  assume "match_call lb s = Some (n, g)"
  then show "0 < n \<and> n \<le> length s" by (rule match_call_len)
qed

lemma wrap_with_at_call:
  assumes X: "X \<noteq> []" "\<forall>c\<in>set X. is_ident_char c" "is_ident_start (hd X)"
    and nn: "X \<noteq> ''null''" "X \<noteq> ''undefined''"
  shows "wrap_with la (la @ X @ ''))'' @ u) = paginated la X @ wrap_with la u"
proof -
  have b: "\<not> prefix ''{'' X" using X(1) X(3) by (cases X) (auto simp: is_ident_start_def)
  have m: "match_call la ((la @ X @ ''))'') @ u) = Some (length la + length X + 2, X)"
    using match_call_I[OF X, of la u] by simp
  have "re_sub (match_call la) (call_repl la) ((la @ X @ ''))'') @ u) =
      call_repl la (la @ X @ ''))'') X @ re_sub (match_call la) (call_repl la) u"
    by (rule re_sub_at_match[of "match_call la" "la @ X @ ''))''" u
          "length la + length X + 2" X "call_repl la", OF m]) simp_all
  then show ?thesis using nn b by (simp add: wrap_with_def call_repl_def)
qed

lemma wrap_both_at_call:
  assumes la: "call_lit la" and lb: "call_lit lb"
    and X: "X \<noteq> []" "\<forall>c\<in>set X. is_ident_char c" "is_ident_start (hd X)"
    and nn: "X \<noteq> ''null''" "X \<noteq> ''undefined''"
  shows "wrap_with lb (wrap_with la (pre @ la @ X @ ''))'' @ post)) =
      wrap_with lb (wrap_with la pre) @ paginated la X @ wrap_with lb (wrap_with la post)"
proof -
  have "wrap_with la (pre @ la @ X @ ''))'' @ post) =
      wrap_with la pre @ wrap_with la (la @ X @ ''))'' @ post)"
    by (rule wrap_with_append_lit[OF la la])
  also have "\<dots> = wrap_with la pre @ paginated la X @ wrap_with la post"
    by (simp only: wrap_with_at_call[OF X nn])
  finally have a: "wrap_with la (pre @ la @ X @ ''))'' @ post) =
      wrap_with la pre @ la @ (''{ content: '' @ X @ '', totalElements: '' @ X
       @ ''.length, totalPages: 1, size: 1000, number: 0 }))'') @ wrap_with la post"
    by (simp add: paginated_def)
  have "wrap_with lb (wrap_with la (pre @ la @ X @ ''))'' @ post)) =
      wrap_with lb (wrap_with la pre) @ wrap_with lb (la @ (''{ content: '' @ X @ '', totalElements: '' @ X
       @ ''.length, totalPages: 1, size: 1000, number: 0 }))'') @ wrap_with la post)"
    unfolding a by (rule wrap_with_append_lit[OF la lb])
  also have "wrap_with lb (la @ (''{ content: '' @ X @ '', totalElements: '' @ X
       @ ''.length, totalPages: 1, size: 1000, number: 0 }))'') @ wrap_with la post) =
      wrap_with lb (paginated la X @ wrap_with la post)"
    by (simp add: paginated_def)
  also have "\<dots> = paginated la X @ wrap_with lb (wrap_with la post)"
    by (rule wrap_skip_paginated[OF la lb X(2)])
  finally show ?thesis .
qed

lemma wrap_array_eq': "wrap_array_in_paginated_response c = wrap_with lit1 (wrap_with lit2 c)"
  unfolding wrap_array_eq
  by (rule wrap_with_commute[OF call_lit_12(2) call_lit_12(1) call_lit_12(3)[symmetric]])

lemma wrap_array_at_call:
  assumes X: "X \<noteq> []" "\<forall>c\<in>set X. is_ident_char c" "is_ident_start (hd X)"
    and nn: "X \<noteq> ''null''" "X \<noteq> ''undefined''"
  shows "wrap_array_in_paginated_response (pre @ lit1 @ X @ ''))'' @ post) =
      wrap_array_in_paginated_response pre @ paginated lit1 X
        @ wrap_array_in_paginated_response post"
    and "wrap_array_in_paginated_response (pre @ lit2 @ X @ ''))'' @ post) =
      wrap_array_in_paginated_response pre @ paginated lit2 X
        @ wrap_array_in_paginated_response post"
proof -
  show "wrap_array_in_paginated_response (pre @ lit1 @ X @ ''))'' @ post) =
      wrap_array_in_paginated_response pre @ paginated lit1 X
        @ wrap_array_in_paginated_response post"
    unfolding wrap_array_eq
    by (rule wrap_both_at_call[OF call_lit_12(1) call_lit_12(2) X nn])
  show "wrap_array_in_paginated_response (pre @ lit2 @ X @ ''))'' @ post) =
      wrap_array_in_paginated_response pre @ paginated lit2 X
        @ wrap_array_in_paginated_response post"
    unfolding wrap_array_eq'
    by (rule wrap_both_at_call[OF call_lit_12(2) call_lit_12(1) X nn])
qed

section \<open>Claims about fix_mock_responses.py\<close>

text \<open>
  C6. Wherever a content holds \<open>createMockResponse(name)\<close> as the argument of
  \<open>mockFetch.mockResolvedValue(\<close> or of \<open>Promise.resolve(\<close>, where \<open>name\<close> is a bare
  identifier such as \<open>items\<close> (any identifier but \<open>null\<close> and \<open>undefined\<close>, which
  the script leaves alone), \<open>wrap_array_in_paginated_response\<close> puts
  \<open>createMockResponse({ content: name, totalElements: name.length, totalPages: 1,
  size: 1000, number: 0 })\<close> there, the text before and behind the call being
  rewritten on its own; and rewriting the output again changes nothing.
\<close>

theorem wrap_array_at_call_site:
  assumes "array_name \<noteq> []" and "\<forall>c\<in>set array_name. is_ident_char c"
    and "is_ident_start (hd array_name)"
    and "array_name \<noteq> ''null''" and "array_name \<noteq> ''undefined''"
  shows "wrap_array_in_paginated_response
           (pre @ ''mockFetch.mockResolvedValue(createMockResponse('' @ array_name @ ''))'' @ post)
         = wrap_array_in_paginated_response pre
           @ ''mockFetch.mockResolvedValue(createMockResponse({ content: '' @ array_name
           @ '', totalElements: '' @ array_name
           @ ''.length, totalPages: 1, size: 1000, number: 0 }))''
           @ wrap_array_in_paginated_response post
       \<and> wrap_array_in_paginated_response
           (pre @ ''Promise.resolve(createMockResponse('' @ array_name @ ''))'' @ post)
         = wrap_array_in_paginated_response pre
           @ ''Promise.resolve(createMockResponse({ content: '' @ array_name
           @ '', totalElements: '' @ array_name
           @ ''.length, totalPages: 1, size: 1000, number: 0 }))''
           @ wrap_array_in_paginated_response post
       \<and> wrap_array_in_paginated_response (wrap_array_in_paginated_response
           (pre @ ''mockFetch.mockResolvedValue(createMockResponse('' @ array_name @ ''))'' @ post))
         = wrap_array_in_paginated_response
           (pre @ ''mockFetch.mockResolvedValue(createMockResponse('' @ array_name @ ''))'' @ post)
       \<and> wrap_array_in_paginated_response (wrap_array_in_paginated_response
           (pre @ ''Promise.resolve(createMockResponse('' @ array_name @ ''))'' @ post))
         = wrap_array_in_paginated_response
           (pre @ ''Promise.resolve(createMockResponse('' @ array_name @ ''))'' @ post)"
proof (intro conjI)
  show "wrap_array_in_paginated_response
           (pre @ ''mockFetch.mockResolvedValue(createMockResponse('' @ array_name @ ''))'' @ post)
         = wrap_array_in_paginated_response pre
           @ ''mockFetch.mockResolvedValue(createMockResponse({ content: '' @ array_name
           @ '', totalElements: '' @ array_name
           @ ''.length, totalPages: 1, size: 1000, number: 0 }))''
           @ wrap_array_in_paginated_response post"
    using wrap_array_at_call(1)[OF assms, of pre post]
    by (simp add: lit1_def paginated_def)
  show "wrap_array_in_paginated_response
           (pre @ ''Promise.resolve(createMockResponse('' @ array_name @ ''))'' @ post)
         = wrap_array_in_paginated_response pre
           @ ''Promise.resolve(createMockResponse({ content: '' @ array_name
           @ '', totalElements: '' @ array_name
           @ ''.length, totalPages: 1, size: 1000, number: 0 }))''
           @ wrap_array_in_paginated_response post"
    using wrap_array_at_call(2)[OF assms, of pre post]
    by (simp add: lit2_def paginated_def)
qed (rule wrap_array_idem)+

theorem wrap_array_at_call_site_witness:
  "wrap_array_in_paginated_response
     ''    mockFetch.mockResolvedValue(createMockResponse(items));''
   = ''    mockFetch.mockResolvedValue(createMockResponse({ content: items, totalElements: items.length, totalPages: 1, size: 1000, number: 0 }));''
   \<and> wrap_array_in_paginated_response
     ''() => Promise.resolve(createMockResponse(items)));''
   = ''() => Promise.resolve(createMockResponse({ content: items, totalElements: items.length, totalPages: 1, size: 1000, number: 0 })));''
   \<and> wrap_array_in_paginated_response (wrap_array_in_paginated_response
       ''    mockFetch.mockResolvedValue(createMockResponse(items));'')
     = wrap_array_in_paginated_response
       ''    mockFetch.mockResolvedValue(createMockResponse(items));''"
proof -
  have h: "''items'' \<noteq> []" "\<forall>c\<in>set ''items''. is_ident_char c" "is_ident_start (hd ''items'')"
    "''items'' \<noteq> ''null''" "''items'' \<noteq> ''undefined''"
    by (simp_all add: is_ident_char_def is_ident_start_def)
  have e: "wrap_array_in_paginated_response ''    '' = ''    ''"
    "wrap_array_in_paginated_response '';'' = '';''"
    "wrap_array_in_paginated_response ''() => '' = ''() => ''"
    "wrap_array_in_paginated_response '');'' = '');''"
    by (simp_all add: wrap_array_in_paginated_response_def pattern1_def pattern2_def match_call_def)
  note t1 = wrap_array_at_call_site[OF h, of "''    ''" "'';''"]
  note t2 = wrap_array_at_call_site[OF h, of "''() => ''" "'');''"]
  from t1[THEN conjunct1, unfolded e] have a: "wrap_array_in_paginated_response
     ''    mockFetch.mockResolvedValue(createMockResponse(items));''
   = ''    mockFetch.mockResolvedValue(createMockResponse({ content: items, totalElements: items.length, totalPages: 1, size: 1000, number: 0 }));''"
    by simp
  from t2[THEN conjunct2, THEN conjunct1, unfolded e] have b: "wrap_array_in_paginated_response
     ''() => Promise.resolve(createMockResponse(items)));''
   = ''() => Promise.resolve(createMockResponse({ content: items, totalElements: items.length, totalPages: 1, size: 1000, number: 0 })));''"
    by simp
  from t1[THEN conjunct2, THEN conjunct2, THEN conjunct1]
  have c: "wrap_array_in_paginated_response (wrap_array_in_paginated_response
       ''    mockFetch.mockResolvedValue(createMockResponse(items));'')
     = wrap_array_in_paginated_response
       ''    mockFetch.mockResolvedValue(createMockResponse(items));''"
    by simp
  from a b c show ?thesis by blast
qed

section \<open>Claims about absent triggers\<close>

lemma re_sub_no_match: "\<not> re_search m s \<Longrightarrow> re_sub m r s = s"
  by (induction s) (auto split: option.splits)

lemma str_in_Cons: "str_in p s \<Longrightarrow> str_in p (c # s)"
  by (simp add: str_in_def sublist_Cons_right)

lemma prefix_str_in: "prefix (a @ b) s \<Longrightarrow> str_in a s"
  unfolding str_in_def by (metis append_prefixD prefix_imp_sublist)

lemma re_search_reset_mockFetch: "re_search reset_pattern s \<Longrightarrow> str_in ''mockFetch'' s"
proof (induction s)
  case Nil
  then show ?case by (simp add: reset_pattern_def)
next
  case (Cons c cs)
  show ?case
  proof (cases "reset_pattern (c # cs)")
    case None
    with Cons show ?thesis by (simp add: str_in_Cons)
  next
    case (Some a)
    then have "prefix (''mockFetch'' @ ''.mockReset();'') (c # cs)"
      by (simp add: reset_pattern_def split: if_splits)
    then show ?thesis by (rule prefix_str_in)
  qed
qed

lemma re_search_match_call: "re_search (match_call (a @ b)) s \<Longrightarrow> str_in b s"
proof (induction s)
  case Nil
  then show ?case by (simp add: match_call_def split: if_splits)
next
  case (Cons c cs)
  show ?case
  proof (cases "match_call (a @ b) (c # cs)")
    case None
    with Cons show ?thesis by (simp add: str_in_Cons)
  next
    case (Some x)
    then have "prefix (a @ b) (c # cs)"
      by (simp add: match_call_def split: if_splits)
    then have "sublist b (c # cs)"
      by (metis prefix_def sublist_appendI append.assoc)
    then show ?thesis by (simp add: str_in_def)
  qed
qed

text \<open>
  C2. A content in which neither pattern of fix_mock_responses.py matches anywhere (in
  particular one without \<open>createMockResponse(\<close>) is returned unchanged by
  \<open>wrap_array_in_paginated_response\<close>. A content without \<open>mockFetch\<close> is left
  unchanged by the reset rule of fix_fetch_mocks.py, and \<open>update_test_file\<close> of that
  script does not update a file with such a content: the files stay as they are.
\<close>

theorem absent_trigger_is_no_op:
  "(\<not> re_search pattern1 c \<and> \<not> re_search pattern2 c \<longrightarrow>
      wrap_array_in_paginated_response c = c)
   \<and> (\<not> str_in ''createMockResponse('' c \<longrightarrow> wrap_array_in_paginated_response c = c)
   \<and> (\<not> str_in ''mockFetch'' c \<longrightarrow>
        add_wrap_rule c = c
        \<and> (files w p = Some f \<and> data f = c \<longrightarrow>
             fst (fetch_mocks_update_test_file p w) \<noteq> Inr True
             \<and> files (snd (fetch_mocks_update_test_file p w)) = files w))"
proof (intro conjI impI)
  assume "\<not> re_search pattern1 c \<and> \<not> re_search pattern2 c"
  then show "wrap_array_in_paginated_response c = c"
    by (simp add: wrap_array_in_paginated_response_def re_sub_no_match)
next
  assume n: "\<not> str_in ''createMockResponse('' c"
  have "\<not> re_search pattern1 c"
    using n re_search_match_call[of "''mockFetch.mockResolvedValue(''" "''createMockResponse(''" c]
    by (auto simp: pattern1_def)
  moreover have "\<not> re_search pattern2 c"
    using n re_search_match_call[of "''Promise.resolve(''" "''createMockResponse(''" c]
    by (auto simp: pattern2_def)
  ultimately show "wrap_array_in_paginated_response c = c"
    by (simp add: wrap_array_in_paginated_response_def re_sub_no_match)
next
  assume "\<not> str_in ''mockFetch'' c"
  then have "\<not> re_search reset_pattern c" using re_search_reset_mockFetch by blast
  then show "add_wrap_rule c = c" by (simp add: add_wrap_rule_def re_sub_no_match)
next
  assume n: "\<not> str_in ''mockFetch'' c" and f: "files w p = Some f \<and> data f = c"
  then show "fst (fetch_mocks_update_test_file p w) \<noteq> Inr True"
    by (simp add: fetch_mocks_update_test_file_def fetch_mocks_update_with_def
        os_path_exists_def read_file_def str_in_universal_newlines)
next
  assume n: "\<not> str_in ''mockFetch'' c" and f: "files w p = Some f \<and> data f = c"
  then show "files (snd (fetch_mocks_update_test_file p w)) = files w"
    by (simp add: fetch_mocks_update_test_file_def fetch_mocks_update_with_def
        os_path_exists_def read_file_def str_in_universal_newlines)
qed

theorem absent_trigger_is_no_op_witness:
  "(let c = ''mockFetch.mockResolvedValue(createMockResponse({ content: [] }))'';
        c' = ''render(page);'';
        f = \<lparr>data = c', readable = True, writable = True\<rparr>;
        w = \<lparr>files = [''a.test.tsx'' \<mapsto> f], out = []\<rparr>
    in \<not> re_search pattern1 c \<and> \<not> re_search pattern2 c
       \<and> wrap_array_in_paginated_response c = c
       \<and> \<not> str_in ''createMockResponse('' c' \<and> wrap_array_in_paginated_response c' = c'
       \<and> \<not> str_in ''mockFetch'' c' \<and> add_wrap_rule c' = c'
       \<and> files w ''a.test.tsx'' = Some f \<and> data f = c'
       \<and> files (snd (fetch_mocks_update_test_file ''a.test.tsx'' w)) = files w)"
proof -
  define c where "c = ''mockFetch.mockResolvedValue(createMockResponse({ content: [] }))''"
  define c' where "c' = ''render(page);''"
  define f where "f = \<lparr>data = c', readable = True, writable = True\<rparr>"
  define w where "w = \<lparr>files = [''a.test.tsx'' \<mapsto> f], out = []\<rparr>"
  have h1: "\<not> re_search pattern1 c \<and> \<not> re_search pattern2 c"
    by (simp add: c_def pattern1_def pattern2_def match_call_def is_ident_char_def)
  have h2: "\<not> str_in ''createMockResponse('' c'"
    by (simp add: c'_def str_in_def sublist_Cons_right)
  have h3: "\<not> str_in ''mockFetch'' c'"
    by (simp add: c'_def str_in_def sublist_Cons_right)
  have h4: "files w ''a.test.tsx'' = Some f \<and> data f = c'"
    by (simp add: w_def f_def)
  note t1 = absent_trigger_is_no_op[of c w "''a.test.tsx''" f]
  note t2 = absent_trigger_is_no_op[of c' w "''a.test.tsx''" f]
  from t1 h1 have a: "wrap_array_in_paginated_response c = c" by blast
  from t2 h2 have b: "wrap_array_in_paginated_response c' = c'" by blast
  from t2 h3 have d: "add_wrap_rule c' = c'" by blast
  from t2 h3 h4 have e: "files (snd (fetch_mocks_update_test_file ''a.test.tsx'' w)) = files w" by blast
  show ?thesis
    unfolding Let_def c_def[symmetric] c'_def[symmetric] f_def[symmetric] w_def[symmetric]
    using h1 h2 h3 h4 a b d e by blast
qed

section \<open>Running fix_fetch_mocks.py twice\<close>

lemma str_in_append: "str_in p a \<Longrightarrow> str_in p (a @ b)" "str_in p b \<Longrightarrow> str_in p (a @ b)"
  by (auto simp: str_in_def sublist_append)

lemma re_sub_changed_contains:
  assumes r: "\<And>s n g. m s = Some (n, g) \<Longrightarrow> 0 < n \<and> str_in W (r (take n s) g)"
  shows "re_sub m r s = s \<or> str_in W (re_sub m r s)"
proof (induction s)
  case Nil
  show ?case
  proof (cases "m []")
    case (Some x) then show ?thesis using r[of "[]" "fst x" "snd x"]
      by (auto split: prod.splits)
  qed simp
next
  case (Cons c cs)
  show ?case
  proof (cases "m (c # cs)")
    case None
    then show ?thesis using Cons by (auto simp: str_in_Cons)
  next
    case (Some x)
    obtain n g where x: "x = (n, g)" by (cases x)
    from r[of "c # cs" n g] Some x have "0 < n" and "str_in W (r (take n (c # cs)) g)" by auto
    then show ?thesis using Some x by (simp add: str_in_append(1))
  qed
qed

lemma add_wrap_rule_changed:
  "add_wrap_rule s = s \<or> str_in ''wrapFetchMock'' (add_wrap_rule s)"
  unfolding add_wrap_rule_def
proof (rule re_sub_changed_contains)
  fix s n g
  assume "reset_pattern s = Some (n, g)"
  then have "n = 22" by (auto dest: reset_pattern_SomeD)
  moreover have "str_in ''wrapFetchMock'' (x @ ''\<newline>    '' @ ''wrapFetchMock'' @ ''(mockFetch);'')" for x
    unfolding str_in_def by (metis sublist_appendI append_assoc)
  ultimately show "0 < n \<and> str_in ''wrapFetchMock'' (add_wrap_after_reset (take n s) g)"
    by (simp add: add_wrap_after_reset_def)
qed

lemma str_replace_contains:
  assumes "str_in ''setupAuthMocks'' x"
  shows "str_in ''wrapFetchMock'' (str_replace ''setupAuthMocks'' ''setupAuthMocks, wrapFetchMock'' x)"
  using assms
proof (induction x rule: length_induct)
  case (1 x)
  show ?case
  proof (cases x)
    case Nil
    with 1(2) show ?thesis by (simp add: str_in_def)
  next
    case (Cons c cs)
    show ?thesis
    proof (cases "prefix ''setupAuthMocks'' (c # cs)")
      case True
      have e: "str_replace ''setupAuthMocks'' ''setupAuthMocks, wrapFetchMock'' (c # cs) =
          ''setupAuthMocks, wrapFetchMock''
            @ str_replace ''setupAuthMocks'' ''setupAuthMocks, wrapFetchMock''
                (drop (length ''setupAuthMocks'' - 1) cs)"
        using True by (simp only: str_replace.simps) simp
      have "str_in ''wrapFetchMock'' ''setupAuthMocks, wrapFetchMock''"
        by (simp add: str_in_def sublist_Cons_right)
      then show ?thesis unfolding Cons e by (rule str_in_append(1))
    next
      case False
      with 1(2) Cons have "str_in ''setupAuthMocks'' cs"
        unfolding str_in_def by (metis sublist_Cons_right)
      then have "str_in ''wrapFetchMock''
          (str_replace ''setupAuthMocks'' ''setupAuthMocks, wrapFetchMock'' cs)"
        using 1(1) Cons by simp
      moreover have "str_replace ''setupAuthMocks'' ''setupAuthMocks, wrapFetchMock'' (c # cs) =
          c # str_replace ''setupAuthMocks'' ''setupAuthMocks, wrapFetchMock'' cs"
        by (simp only: str_replace.simps list.distinct False if_False)
      ultimately show ?thesis unfolding Cons by (simp only: str_in_Cons)
    qed
  qed
qed

lemma import_pattern_SomeD:
  assumes "import_pattern s = Some (n, g)"
  shows "0 < n" and "str_in ''setupAuthMocks'' (take n s)"
proof -
  from assms obtain r1 where s: "s = ''import'' @ r1"
    by (auto simp: import_pattern_def prefix_def split: if_splits)
  define ws where "ws = takeWhile is_space r1"
  define r2 where "r2 = dropWhile is_space r1"
  define body where "body = takeWhile (\<lambda>c. c \<noteq> CHR ''}'') (drop 1 r2)"
  define r3 where "r3 = dropWhile (\<lambda>c. c \<noteq> CHR ''}'') (drop 1 r2)"
  from assms have f: "prefix ''{'' r2" "str_in ''setupAuthMocks'' body" "r3 \<noteq> []"
    and n: "n = 6 + length ws + 1 + length body + 1"
    unfolding import_pattern_def s ws_def r2_def body_def r3_def
    by (auto simp: Let_def split: if_splits)
  show "0 < n" using n by simp
  have r1: "r1 = ws @ r2" by (simp add: ws_def r2_def)
  from f(1) have r2: "r2 = CHR ''{'' # drop 1 r2" by (cases r2) auto
  have r2': "drop 1 r2 = body @ r3" by (simp add: body_def r3_def)
  define Q where "Q = (''import'' @ ws @ ''{'') @ body"
  have "s = (''import'' @ ws @ ''{'') @ body @ r3"
    using s r1 r2 r2' by (metis append_Cons append_Nil append_assoc)
  then have sQ: "s = Q @ r3" by (simp add: Q_def)
  have nQ: "n = length Q + 1" using n by (simp add: Q_def)
  have "take n s = Q @ take 1 r3" unfolding sQ nQ by simp
  moreover have "str_in ''setupAuthMocks'' Q"
    unfolding Q_def using f(2) by (rule str_in_append(2))
  ultimately show "str_in ''setupAuthMocks'' (take n s)"
    by (simp only: str_in_append(1))
qed

lemma import_rule_changed:
  "re_sub import_pattern add_wrap_to_import s = s
   \<or> str_in ''wrapFetchMock'' (re_sub import_pattern add_wrap_to_import s)"
proof (rule re_sub_changed_contains)
  fix s n g
  assume m: "import_pattern s = Some (n, g)"
  show "0 < n \<and> str_in ''wrapFetchMock'' (add_wrap_to_import (take n s) g)"
    using import_pattern_SomeD[OF m] str_replace_contains[of "take n s"]
    by (simp add: add_wrap_to_import_def)
qed

lemma add_wrap_fetch_mock_changed:
  "add_wrap_fetch_mock c = c \<or> str_in ''wrapFetchMock'' (add_wrap_fetch_mock c)"
  using import_rule_changed[of c]
    add_wrap_rule_changed[of "re_sub import_pattern add_wrap_to_import c"]
  unfolding add_wrap_fetch_mock_def by metis

lemma fetch_mocks_update_effect:
  "files (snd (fetch_mocks_update_test_file p w)) = files w
   \<or> (\<exists>f new. files w p = Some f \<and> readable f \<and> str_in ''wrapFetchMock'' new
         \<and> files (snd (fetch_mocks_update_test_file p w)) = (files w)(p \<mapsto> f\<lparr>data := new\<rparr>))"
proof (cases "files w p")
  case None
  then show ?thesis
    by (simp add: fetch_mocks_update_test_file_def fetch_mocks_update_with_def os_path_exists_def)
next
  case (Some f)
  show ?thesis
  proof (cases "readable f \<and> writable f
      \<and> add_wrap_fetch_mock (universal_newlines (data f)) \<noteq> universal_newlines (data f)")
    case True
    then have "str_in ''wrapFetchMock'' (add_wrap_fetch_mock (universal_newlines (data f)))"
      using add_wrap_fetch_mock_changed[of "universal_newlines (data f)"] by simp
    then show ?thesis using Some True
      by (auto simp: fetch_mocks_update_test_file_def fetch_mocks_update_with_def
          os_path_exists_def read_file_def write_file_eq returns_def)
  next
    case False
    then show ?thesis using Some
      by (auto simp: fetch_mocks_update_test_file_def fetch_mocks_update_with_def
          os_path_exists_def read_file_def write_file_eq returns_def)
  qed
qed

lemma fetch_mocks_update_guarded:
  assumes "files w p = Some f" and "readable f" and "str_in ''wrapFetchMock'' (data f)"
  shows "files (snd (fetch_mocks_update_test_file p w)) = files w"
  using assms
  by (simp add: fetch_mocks_update_test_file_def fetch_mocks_update_with_def
      os_path_exists_def read_file_def str_in_universal_newlines)

lemma fetch_mocks_update_twice:
  "files (snd (fetch_mocks_update_test_file p (snd (fetch_mocks_update_test_file p w)))) =
   files (snd (fetch_mocks_update_test_file p w))"
proof -
  define w1 where "w1 = snd (fetch_mocks_update_test_file p w)"
  from fetch_mocks_update_effect[of p w]
  consider "files w1 = files w"
    | f new where "files w p = Some f" "readable f" "str_in ''wrapFetchMock'' new"
        "files w1 = (files w)(p \<mapsto> f\<lparr>data := new\<rparr>)"
    unfolding w1_def by blast
  then have "files (snd (fetch_mocks_update_test_file p w1)) = files w1"
  proof cases
    case 1
    from fetch_mocks_update_effect[of p w1] show ?thesis
    proof
      assume "\<exists>f new. files w1 p = Some f \<and> readable f \<and> str_in ''wrapFetchMock'' new
         \<and> files (snd (fetch_mocks_update_test_file p w1)) = (files w1)(p \<mapsto> f\<lparr>data := new\<rparr>)"
      then obtain f where f: "files w1 p = Some f" by blast
      have e: "fst (fetch_mocks_update_test_file p w1) = fst (fetch_mocks_update_test_file p w)"
        "files (snd (fetch_mocks_update_test_file p w1)) = files (snd (fetch_mocks_update_test_file p w))"
        using 1
        by (auto simp: fetch_mocks_update_test_file_def fetch_mocks_update_with_def
            os_path_exists_def read_file_def write_file_eq returns_def print_def
            split: option.splits)
      then show ?thesis using 1 by (simp add: w1_def)
    qed simp
  next
    case 2
    have "files w1 p = Some (f\<lparr>data := new\<rparr>)" using 2(4) by simp
    moreover have "readable (f\<lparr>data := new\<rparr>)" using 2(2) by simp
    moreover have "str_in ''wrapFetchMock'' (data (f\<lparr>data := new\<rparr>))" using 2(3) by simp
    ultimately show ?thesis by (rule fetch_mocks_update_guarded)
  qed
  then show ?thesis by (simp add: w1_def)
qed

text \<open>
  C1. Applying a rewrite twice gives what applying it once gives: for the rule that
  inserts \<open>wrapFetchMock(mockFetch);\<close> (lines 73 to 80 of fix_fetch_mocks.py), for
  \<open>update_test_file\<close> of that script run twice on a file (the files after the second
  run are the files after the first), and for \<open>wrap_array_in_paginated_response\<close> of
  fix_mock_responses.py, on every content.
\<close>

theorem rewrites_are_idempotent:
  "add_wrap_rule (add_wrap_rule content) = add_wrap_rule content
   \<and> files (snd (fetch_mocks_update_test_file p (snd (fetch_mocks_update_test_file p w)))) =
       files (snd (fetch_mocks_update_test_file p w))
   \<and> wrap_array_in_paginated_response (wrap_array_in_paginated_response content) =
       wrap_array_in_paginated_response content"
  by (intro conjI add_wrap_rule_idem fetch_mocks_update_twice wrap_array_idem)

theorem rewrites_are_idempotent_witness:
  "(let w = \<lparr>files = [''a.test.tsx'' \<mapsto>
               \<lparr>data = ''import { setupAuthMocks } from x; mockFetch.mockReset();'',
                readable = True, writable = True\<rparr>], out = []\<rparr>;
        w1 = snd (fetch_mocks_update_test_file ''a.test.tsx'' w)
    in add_wrap_rule ''mockFetch.mockReset();'' = ''mockFetch.mockReset();\<newline>    wrapFetchMock(mockFetch);''
       \<and> add_wrap_rule (add_wrap_rule ''mockFetch.mockReset();'') = ''mockFetch.mockReset();\<newline>    wrapFetchMock(mockFetch);''
       \<and> files w1 ''a.test.tsx'' = Some \<lparr>data = ''import { setupAuthMocks, wrapFetchMock } from x; mockFetch.mockReset();\<newline>    wrapFetchMock(mockFetch);'',
                readable = True, writable = True\<rparr>
       \<and> files (snd (fetch_mocks_update_test_file ''a.test.tsx'' w1)) = files w1
       \<and> wrap_array_in_paginated_response (wrap_array_in_paginated_response
             ''mockFetch.mockResolvedValue(createMockResponse(items))'')
           = wrap_array_in_paginated_response ''mockFetch.mockResolvedValue(createMockResponse(items))'')"
proof -
  define w where "w = \<lparr>files = [''a.test.tsx'' \<mapsto>
               \<lparr>data = ''import { setupAuthMocks } from x; mockFetch.mockReset();'',
                readable = True, writable = True\<rparr>], out = []\<rparr>"
  define w1 where "w1 = snd (fetch_mocks_update_test_file ''a.test.tsx'' w)"
  have a: "add_wrap_rule ''mockFetch.mockReset();'' = ''mockFetch.mockReset();\<newline>    wrapFetchMock(mockFetch);''"
    by (simp add: add_wrap_rule_def reset_pattern_def followed_by_wrap_def add_wrap_after_reset_def)
  note t = rewrites_are_idempotent[of "''mockFetch.mockReset();''" "''a.test.tsx''" w]
  note t' = rewrites_are_idempotent[of "''mockFetch.mockResolvedValue(createMockResponse(items))''" "''a.test.tsx''" w]
  from t a have b: "add_wrap_rule (add_wrap_rule ''mockFetch.mockReset();'') = ''mockFetch.mockReset();\<newline>    wrapFetchMock(mockFetch);''"
    by simp
  have i: "re_sub import_pattern add_wrap_to_import ''import { setupAuthMocks } from x; mockFetch.mockReset();''
      = ''import { setupAuthMocks, wrapFetchMock } from x; mockFetch.mockReset();''"
    by (simp add: import_pattern_def add_wrap_to_import_def is_space_def str_in_def sublist_Cons_right)
  have r: "add_wrap_rule ''import { setupAuthMocks, wrapFetchMock } from x; mockFetch.mockReset();''
      = ''import { setupAuthMocks, wrapFetchMock } from x; mockFetch.mockReset();\<newline>    wrapFetchMock(mockFetch);''"
    by (simp add: add_wrap_rule_def reset_pattern_def followed_by_wrap_def add_wrap_after_reset_def)
  have g: "\<not> str_in ''wrapFetchMock'' ''import { setupAuthMocks } from x; mockFetch.mockReset();''"
    "str_in ''mockFetch'' ''import { setupAuthMocks } from x; mockFetch.mockReset();''"
    "str_in ''setupAuthMocks'' ''import { setupAuthMocks } from x; mockFetch.mockReset();''"
    by (simp_all add: str_in_def sublist_Cons_right)
  have ac: "add_wrap_fetch_mock ''import { setupAuthMocks } from x; mockFetch.mockReset();''
      = ''import { setupAuthMocks, wrapFetchMock } from x; mockFetch.mockReset();\<newline>    wrapFetchMock(mockFetch);''"
    unfolding add_wrap_fetch_mock_def i r by (rule refl)
  have c: "files w1 ''a.test.tsx'' = Some \<lparr>data = ''import { setupAuthMocks, wrapFetchMock } from x; mockFetch.mockReset();\<newline>    wrapFetchMock(mockFetch);'',
                readable = True, writable = True\<rparr>"
    unfolding w1_def w_def fetch_mocks_update_test_file_def fetch_mocks_update_with_def
    by (simp add: os_path_exists_def read_file_def g returns_def ac write_file_eq)
  from t have d: "files (snd (fetch_mocks_update_test_file ''a.test.tsx'' w1)) = files w1"
    unfolding w1_def by blast
  from t' have e: "wrap_array_in_paginated_response (wrap_array_in_paginated_response
             ''mockFetch.mockResolvedValue(createMockResponse(items))'')
           = wrap_array_in_paginated_response ''mockFetch.mockResolvedValue(createMockResponse(items))''"
    by blast
  show ?thesis
    unfolding Let_def w_def[symmetric] w1_def[symmetric] using a b c d e by blast
qed

section \<open>Claims about the handling of files\<close>

text \<open>
  C3. A file that can be read and whose content holds the guard string of a script
  anywhere (\<open>wrapFetchMock\<close> in fix_fetch_mocks.py, \<open>cleanupAuthMocks = setupAuthMocks()\<close>
  in fix_setup_auth_mocks.py, \<open>createTestWrapper\<close> in fix_tests.py) is skipped: the
  script prints that the file is already done and nothing else happens. The rewrite is
  not run (the result is the same for every rewrite) and the files are the ones before.
\<close>

theorem guard_present_skips_file:
  assumes "files w p = Some f" and "readable f"
  shows "(str_in ''wrapFetchMock'' (data f) \<longrightarrow>
            fetch_mocks_update_with rewrite p w = (Inr False, w\<lparr>out := out w @ [AlreadyUpdated p]\<rparr>))
       \<and> (str_in ''cleanupAuthMocks = setupAuthMocks()'' (data f) \<longrightarrow>
            setup_auth_fix_with rewrite p w = (Inr False, w\<lparr>out := out w @ [AlreadyFixed p]\<rparr>))
       \<and> (str_in ''createTestWrapper'' (data f) \<longrightarrow>
            fix_tests_fix_with rewrite_lines join p w
              = (Inr (), w\<lparr>out := out w @ [Skipping p]\<rparr>))"
  using assms
  by (simp add: fetch_mocks_update_with_def setup_auth_fix_with_def fix_tests_fix_with_def
      os_path_exists_def read_file_def print_def str_in_universal_newlines)

theorem guard_present_skips_file_witness:
  "(let f = \<lparr>data = ''wrapFetchMock(); cleanupAuthMocks = setupAuthMocks(); createTestWrapper()'',
             readable = True, writable = True\<rparr>;
        w = \<lparr>files = [''a.test.tsx'' \<mapsto> f], out = []\<rparr>
    in files w ''a.test.tsx'' = Some f \<and> readable f
       \<and> str_in ''wrapFetchMock'' (data f)
       \<and> str_in ''cleanupAuthMocks = setupAuthMocks()'' (data f)
       \<and> str_in ''createTestWrapper'' (data f)
       \<and> fetch_mocks_update_test_file ''a.test.tsx'' w
           = (Inr False, \<lparr>files = [''a.test.tsx'' \<mapsto> f], out = [AlreadyUpdated ''a.test.tsx'']\<rparr>)
       \<and> setup_auth_fix_test_file ''a.test.tsx'' w
           = (Inr False, \<lparr>files = [''a.test.tsx'' \<mapsto> f], out = [AlreadyFixed ''a.test.tsx'']\<rparr>)
       \<and> fix_tests_fix_test_file ''a.test.tsx'' w
           = (Inr (), \<lparr>files = [''a.test.tsx'' \<mapsto> f], out = [Skipping ''a.test.tsx'']\<rparr>))"
proof -
  define f where "f = \<lparr>data = ''wrapFetchMock(); cleanupAuthMocks = setupAuthMocks(); createTestWrapper()'',
             readable = True, writable = True\<rparr>"
  define w where "w = \<lparr>files = [''a.test.tsx'' \<mapsto> f], out = []\<rparr>"
  have h1: "files w ''a.test.tsx'' = Some f" by (simp add: w_def)
  have h2: "readable f" by (simp add: f_def)
  have g1: "str_in ''wrapFetchMock'' (data f)"
    by (simp add: f_def str_in_def sublist_Cons_right)
  have g2: "str_in ''cleanupAuthMocks = setupAuthMocks()'' (data f)"
    by (simp add: f_def str_in_def sublist_Cons_right)
  have g3: "str_in ''createTestWrapper'' (data f)"
    by (simp add: f_def str_in_def sublist_Cons_right)
  note t = guard_present_skips_file[OF h1 h2]
  note t1 = t[where rewrite = "returns add_wrap_fetch_mock"]
  note t2 = t[where rewrite = "returns add_setup_auth_mocks"]
  note t3 = t[where rewrite_lines = "returns fix_tests_lines"
      and join = "returns (join_with ''\<newline>'')"]
  have "fetch_mocks_update_test_file ''a.test.tsx'' w
           = (Inr False, \<lparr>files = [''a.test.tsx'' \<mapsto> f], out = [AlreadyUpdated ''a.test.tsx'']\<rparr>)"
    using t1 g1
    by (simp add: fetch_mocks_update_test_file_def w_def)
  moreover have "setup_auth_fix_test_file ''a.test.tsx'' w
           = (Inr False, \<lparr>files = [''a.test.tsx'' \<mapsto> f], out = [AlreadyFixed ''a.test.tsx'']\<rparr>)"
    using t2 g2
    by (simp add: setup_auth_fix_test_file_def w_def)
  moreover have "fix_tests_fix_test_file ''a.test.tsx'' w
           = (Inr (), \<lparr>files = [''a.test.tsx'' \<mapsto> f], out = [Skipping ''a.test.tsx'']\<rparr>)"
    using t3 g3
    by (simp add: fix_tests_fix_test_file_def w_def)
  ultimately show ?thesis
    using h1 h2 g1 g2 g3 unfolding Let_def f_def[symmetric] w_def[symmetric] by blast
qed

text \<open>
  C4, as stated, fails: fix_resource_form_tests.py opens its one hard-coded path at
  module level without a check. On a file system that does not have the file, the
  script ends with the uncaught \<open>FileNotFoundError\<close>; nothing is printed.
\<close>

theorem resource_form_missing_file_is_fatal:
  "files \<lparr>files = Map.empty, out = []\<rparr> resource_form_path = None
   \<and> resource_form_main \<lparr>files = Map.empty, out = []\<rparr>
       = (Inl FileNotFoundError, \<lparr>files = Map.empty, out = []\<rparr>)"
  by (simp add: resource_form_main_def resource_form_with_def read_file_def)

text \<open>
  C4, amended. In the four scripts that run over a list of files, a path that does not
  exist does not end the run. fix_fetch_mocks.py, fix_mock_responses.py and
  fix_setup_auth_mocks.py print that the file was not found and return \<open>False\<close>;
  in fix_tests.py the \<open>FileNotFoundError\<close> of \<open>open\<close> is caught by the loop and
  printed. In each case the files are the ones before and the loop goes on with the
  remaining paths.
\<close>

theorem missing_file_is_skipped:
  assumes "files w p = None"
  shows "fetch_mocks_update_test_file p w = (Inr False, w\<lparr>out := out w @ [FileNotFound p]\<rparr>)
       \<and> mock_responses_update_test_file p w = (Inr False, w\<lparr>out := out w @ [FileNotFound p]\<rparr>)
       \<and> setup_auth_fix_test_file p w = (Inr False, w\<lparr>out := out w @ [FileNotFound p]\<rparr>)
       \<and> fix_tests_fix_test_file p w = (Inl FileNotFoundError, w)
       \<and> count_updated fetch_mocks_update_test_file (p # ps) n w
           = count_updated fetch_mocks_update_test_file ps n (w\<lparr>out := out w @ [FileNotFound p]\<rparr>)
       \<and> count_updated mock_responses_update_test_file (p # ps) n w
           = count_updated mock_responses_update_test_file ps n (w\<lparr>out := out w @ [FileNotFound p]\<rparr>)
       \<and> count_updated setup_auth_fix_test_file (p # ps) n w
           = count_updated setup_auth_fix_test_file ps n (w\<lparr>out := out w @ [FileNotFound p]\<rparr>)
       \<and> fix_tests_loop_with (returns fix_tests_lines) (returns (join_with ''\<newline>'')) (p # ps) w
           = fix_tests_loop_with (returns fix_tests_lines) (returns (join_with ''\<newline>'')) ps
               (w\<lparr>out := out w @ [ErrorFixing p FileNotFoundError, Traceback FileNotFoundError]\<rparr>)"
  using assms
  by (simp add: fetch_mocks_update_test_file_def fetch_mocks_update_with_def
      mock_responses_update_test_file_def mock_responses_update_with_def
      setup_auth_fix_test_file_def setup_auth_fix_with_def
      fix_tests_fix_test_file_def fix_tests_fix_with_def
      os_path_exists_def read_file_def print_def)

theorem missing_file_is_skipped_witness:
  "files \<lparr>files = Map.empty, out = []\<rparr> ''gone.test.tsx'' = None
   \<and> fetch_mocks_update_test_file ''gone.test.tsx'' \<lparr>files = Map.empty, out = []\<rparr>
       = (Inr False, \<lparr>files = Map.empty, out = [FileNotFound ''gone.test.tsx'']\<rparr>)
   \<and> fix_tests_fix_test_file ''gone.test.tsx'' \<lparr>files = Map.empty, out = []\<rparr>
       = (Inl FileNotFoundError, \<lparr>files = Map.empty, out = []\<rparr>)
   \<and> count_updated mock_responses_update_test_file [''gone.test.tsx''] 0 \<lparr>files = Map.empty, out = []\<rparr>
       = (Inr 0, \<lparr>files = Map.empty, out = [FileNotFound ''gone.test.tsx'']\<rparr>)"
proof -
  have h: "files \<lparr>files = Map.empty, out = []\<rparr> ''gone.test.tsx'' = None" by simp
  show ?thesis
    using missing_file_is_skipped[OF h, of "[]" 0] by simp
qed

text \<open>
  C8, as stated, fails: only fix_tests.py catches the exceptions of a file. In
  fix_fetch_mocks.py a file that exists but cannot be read makes \<open>open\<close> raise
  \<open>PermissionError\<close>; nothing catches it, so it leaves \<open>update_test_file\<close> and
  \<open>main\<close>. Here the first file of the list is unreadable and the second one would be
  rewritten: the run ends with the exception and the second file is as before.
\<close>

theorem fetch_mocks_unreadable_file_aborts_run:
  "fetch_mocks_main
     \<lparr>files = [''emf-ui/app/src/pages/CollectionsPage/CollectionsPage.test.tsx'' \<mapsto>
                  \<lparr>data = ''x'', readable = False, writable = True\<rparr>,
               ''emf-ui/app/src/pages/DashboardPage/DashboardPage.test.tsx'' \<mapsto>
                  \<lparr>data = ''setupAuthMocks mockFetch.mockReset();'', readable = True, writable = True\<rparr>],
      out = []\<rparr>
   = (Inl PermissionError,
      \<lparr>files = [''emf-ui/app/src/pages/CollectionsPage/CollectionsPage.test.tsx'' \<mapsto>
                  \<lparr>data = ''x'', readable = False, writable = True\<rparr>,
               ''emf-ui/app/src/pages/DashboardPage/DashboardPage.test.tsx'' \<mapsto>
                  \<lparr>data = ''setupAuthMocks mockFetch.mockReset();'', readable = True, writable = True\<rparr>],
       out = [Banner]\<rparr>)"
  by (simp add: fetch_mocks_main_def run_main_def fetch_mocks_test_files_def
      fetch_mocks_update_test_file_def fetch_mocks_update_with_def
      os_path_exists_def read_file_def print_def)

lemma fix_tests_loop_returns: "fst (fix_tests_loop_with rewrite join ps w) = Inr ()"
proof (induction ps arbitrary: w)
  case Nil
  show ?case by simp
next
  case (Cons p ps)
  obtain r w' where r: "fix_tests_fix_with rewrite join p w = (r, w')"
    by (cases "fix_tests_fix_with rewrite join p w")
  show ?case using Cons.IH r by (cases r) simp_all
qed

text \<open>
  C8, amended. In fix_tests.py every exception that leaves \<open>fix_test_file\<close> (a missing
  or unreadable file, an error while the content is rewritten, a failing write) is
  caught by the loop: it is printed, the loop goes on with the remaining files, and the
  script ends normally whatever the files are. The other scripts have no handler: an
  exception of a file ends the run.
\<close>

theorem fix_tests_errors_are_local:
  "fst (fix_tests_loop_with rewrite join ps w) = Inr ()
   \<and> (fix_tests_fix_with rewrite join p w = (Inl e, w') \<longrightarrow>
        fix_tests_loop_with rewrite join (p # ps) w
          = fix_tests_loop_with rewrite join ps
              (w'\<lparr>out := out w' @ [ErrorFixing p e, Traceback e]\<rparr>))
   \<and> fst (fix_tests_main w) = Inr ()"
  by (simp add: fix_tests_loop_returns fix_tests_main_def print_def)

theorem fix_tests_errors_are_local_witness:
  "(let w = \<lparr>files = [''a.test.tsx'' \<mapsto> \<lparr>data = ''x'', readable = False, writable = True\<rparr>], out = []\<rparr>
    in fix_tests_fix_with (returns fix_tests_lines) (returns (join_with ''\<newline>'')) ''a.test.tsx'' w = (Inl PermissionError, w)
       \<and> fix_tests_loop_with (returns fix_tests_lines) (returns (join_with ''\<newline>'')) [''a.test.tsx'', ''b.test.tsx''] w
           = (Inr (), w\<lparr>out := [ErrorFixing ''a.test.tsx'' PermissionError, Traceback PermissionError,
                                ErrorFixing ''b.test.tsx'' FileNotFoundError, Traceback FileNotFoundError]\<rparr>)
       \<and> fst (fix_tests_main w) = Inr ())"
proof -
  define w where "w = \<lparr>files = [''a.test.tsx'' \<mapsto> \<lparr>data = ''x'', readable = False, writable = True\<rparr>], out = []\<rparr>"
  have h: "fix_tests_fix_with (returns fix_tests_lines) (returns (join_with ''\<newline>'')) ''a.test.tsx'' w = (Inl PermissionError, w)"
    by (simp add: w_def fix_tests_fix_with_def read_file_def)
  note t = fix_tests_errors_are_local[of "returns fix_tests_lines"
      "returns (join_with ''\<newline>'')" "[''b.test.tsx'']" w
      "''a.test.tsx''" PermissionError w]
  have "fix_tests_loop_with (returns fix_tests_lines) (returns (join_with ''\<newline>'')) [''a.test.tsx'', ''b.test.tsx''] w
      = fix_tests_loop_with (returns fix_tests_lines) (returns (join_with ''\<newline>'')) [''b.test.tsx'']
          (w\<lparr>out := out w @ [ErrorFixing ''a.test.tsx'' PermissionError, Traceback PermissionError]\<rparr>)"
    using t h by blast
  also have "\<dots> = (Inr (), w\<lparr>out := [ErrorFixing ''a.test.tsx'' PermissionError, Traceback PermissionError,
                                ErrorFixing ''b.test.tsx'' FileNotFoundError, Traceback FileNotFoundError]\<rparr>)"
    by (simp add: w_def fix_tests_fix_with_def read_file_def print_def)
  finally have l: "fix_tests_loop_with (returns fix_tests_lines) (returns (join_with ''\<newline>'')) [''a.test.tsx'', ''b.test.tsx''] w
      = (Inr (), w\<lparr>out := [ErrorFixing ''a.test.tsx'' PermissionError, Traceback PermissionError,
                                ErrorFixing ''b.test.tsx'' FileNotFoundError, Traceback FileNotFoundError]\<rparr>)" .
  from t have m: "fst (fix_tests_main w) = Inr ()" by blast
  show ?thesis unfolding Let_def w_def[symmetric] using h l m by blast
qed

text \<open>
  C9, as stated, fails for fix_tests.py and fix_resource_form_tests.py. Both build the
  list of the new lines in memory and join it inside the \<open>with open(filepath, 'w')\<close>
  block, as the argument of \<open>f.write\<close>: the join is evaluated when the file has been
  opened for writing, and opening empties it. An error raised by the join leaves the
  function with the file empty: the original content is lost. Here the file holds
  \<open>x\<close> before the call and nothing after it.
\<close>

theorem join_error_leaves_file_empty:
  "fix_tests_fix_with (returns fix_tests_lines) (raises MemoryError) ''a.test.tsx''
     \<lparr>files = [''a.test.tsx'' \<mapsto> \<lparr>data = ''x'', readable = True, writable = True\<rparr>], out = []\<rparr>
   = (Inl MemoryError,
      \<lparr>files = [''a.test.tsx'' \<mapsto> \<lparr>data = [], readable = True, writable = True\<rparr>], out = []\<rparr>)
   \<and> resource_form_with (returns fix_resource_form_lines) (raises MemoryError)
     \<lparr>files = [resource_form_path \<mapsto> \<lparr>data = ''x'', readable = True, writable = True\<rparr>], out = []\<rparr>
   = (Inl MemoryError,
      \<lparr>files = [resource_form_path \<mapsto> \<lparr>data = [], readable = True, writable = True\<rparr>], out = []\<rparr>)"
  by (simp add: fix_tests_fix_with_def resource_form_with_def read_file_def open_write_def
      returns_def raises_def str_in_def sublist_Cons_right)

text \<open>
  C9, amended. An error raised while the content is rewritten, before the file is
  opened for writing, leaves the function with that exception and the files as they
  were. In fix_fetch_mocks.py, fix_mock_responses.py and fix_setup_auth_mocks.py that
  is the whole rewrite: the file is opened for writing with the new content already
  built. In fix_tests.py and fix_resource_form_tests.py it is the building of the list
  of lines; the join of the lines comes after the file has been opened, and an error
  there leaves the function with that exception and the file empty.
\<close>

theorem error_before_open_writes_nothing:
  assumes "files w p = Some f" and "read_file w p = Inr content"
  shows "(rewrite content = Inl e \<longrightarrow>
            files (snd (fetch_mocks_update_with rewrite p w)) = files w
          \<and> mock_responses_update_with rewrite p w = (Inl e, w)
          \<and> files (snd (setup_auth_fix_with rewrite p w)) = files w)
       \<and> (rewrite_lines content = Inl e \<longrightarrow>
            files (snd (fix_tests_fix_with rewrite_lines join p w)) = files w
          \<and> (\<not> str_in ''createTestWrapper'' content \<longrightarrow>
               fix_tests_fix_with rewrite_lines join p w = (Inl e, w))
          \<and> (p = resource_form_path \<longrightarrow> resource_form_with rewrite_lines join w = (Inl e, w)))
       \<and> (rewrite_lines content = Inr ls \<and> join ls = Inl e \<and> writable f \<longrightarrow>
            (\<not> str_in ''createTestWrapper'' content \<longrightarrow>
               fix_tests_fix_with rewrite_lines join p w
                 = (Inl e, w\<lparr>files := (files w)(p \<mapsto> f\<lparr>data := []\<rparr>)\<rparr>))
          \<and> (p = resource_form_path \<longrightarrow>
               resource_form_with rewrite_lines join w
                 = (Inl e, w\<lparr>files := (files w)(p \<mapsto> f\<lparr>data := []\<rparr>)\<rparr>)))"
proof -
  have a: "rewrite content = Inl e \<Longrightarrow>
      files (snd (fetch_mocks_update_with rewrite p w)) = files w"
    using assms by (simp add: fetch_mocks_update_with_def os_path_exists_def)
  have b: "rewrite content = Inl e \<Longrightarrow> mock_responses_update_with rewrite p w = (Inl e, w)"
    using assms by (simp add: mock_responses_update_with_def os_path_exists_def)
  have c: "rewrite content = Inl e \<Longrightarrow>
      files (snd (setup_auth_fix_with rewrite p w)) = files w"
    using assms by (simp add: setup_auth_fix_with_def os_path_exists_def)
  have d: "rewrite_lines content = Inl e \<Longrightarrow>
      files (snd (fix_tests_fix_with rewrite_lines join p w)) = files w"
    using assms by (simp add: fix_tests_fix_with_def)
  have d': "rewrite_lines content = Inl e \<Longrightarrow> \<not> str_in ''createTestWrapper'' content \<Longrightarrow>
      fix_tests_fix_with rewrite_lines join p w = (Inl e, w)"
    using assms by (simp add: fix_tests_fix_with_def)
  have d'': "rewrite_lines content = Inl e \<Longrightarrow> p = resource_form_path \<Longrightarrow>
      resource_form_with rewrite_lines join w = (Inl e, w)"
    using assms by (simp add: resource_form_with_def)
  have g: "rewrite_lines content = Inr ls \<Longrightarrow> join ls = Inl e \<Longrightarrow> writable f \<Longrightarrow>
      \<not> str_in ''createTestWrapper'' content \<Longrightarrow>
      fix_tests_fix_with rewrite_lines join p w
        = (Inl e, w\<lparr>files := (files w)(p \<mapsto> f\<lparr>data := []\<rparr>)\<rparr>)"
    using assms by (simp add: fix_tests_fix_with_def open_write_def)
  have g': "rewrite_lines content = Inr ls \<Longrightarrow> join ls = Inl e \<Longrightarrow> writable f \<Longrightarrow>
      p = resource_form_path \<Longrightarrow>
      resource_form_with rewrite_lines join w
        = (Inl e, w\<lparr>files := (files w)(p \<mapsto> f\<lparr>data := []\<rparr>)\<rparr>)"
    using assms by (simp add: resource_form_with_def open_write_def)
  show ?thesis using a b c d d' d'' g g' by blast
qed

theorem error_before_open_writes_nothing_witness:
  "(let f = \<lparr>data = ''setupAuthMocks mockFetch.mockReset();'', readable = True, writable = True\<rparr>;
        w = \<lparr>files = [resource_form_path \<mapsto> f], out = []\<rparr>
    in files w resource_form_path = Some f
       \<and> read_file w resource_form_path = Inr (data f)
       \<and> writable f
       \<and> \<not> str_in ''createTestWrapper'' (data f)
       \<and> mock_responses_update_with (raises MemoryError) resource_form_path w
           = (Inl MemoryError, w)
       \<and> files (snd (fetch_mocks_update_with (raises MemoryError) resource_form_path w)) = files w
       \<and> fix_tests_fix_with (raises MemoryError) (returns (join_with ''\<newline>''))
             resource_form_path w
           = (Inl MemoryError, w)
       \<and> resource_form_with (raises MemoryError) (returns (join_with ''\<newline>'')) w
           = (Inl MemoryError, w)
       \<and> fix_tests_fix_with (returns fix_tests_lines) (raises MemoryError) resource_form_path w
           = (Inl MemoryError, w\<lparr>files := (files w)(resource_form_path \<mapsto> f\<lparr>data := []\<rparr>)\<rparr>)
       \<and> resource_form_with (returns fix_resource_form_lines) (raises MemoryError) w
           = (Inl MemoryError, w\<lparr>files := (files w)(resource_form_path \<mapsto> f\<lparr>data := []\<rparr>)\<rparr>))"
proof -
  define f where
    "f = \<lparr>data = ''setupAuthMocks mockFetch.mockReset();'', readable = True, writable = True\<rparr>"
  define w where "w = \<lparr>files = [resource_form_path \<mapsto> f], out = []\<rparr>"
  have h1: "files w resource_form_path = Some f" by (simp add: w_def)
  have h2: "read_file w resource_form_path = Inr (data f)"
    by (simp add: w_def read_file_def) (simp add: f_def)
  have h3: "writable f" by (simp add: f_def)
  have h4: "\<not> str_in ''createTestWrapper'' (data f)"
    by (simp add: f_def str_in_def sublist_Cons_right)
  have r1: "(raises MemoryError :: string \<Rightarrow> exn + string) (data f) = Inl MemoryError"
    by (simp add: raises_def)
  have r2: "(raises MemoryError :: string \<Rightarrow> exn + string list) (data f) = Inl MemoryError"
    by (simp add: raises_def)
  have r3: "returns fix_tests_lines (data f) = Inr (fix_tests_lines (data f))"
    by (simp add: returns_def)
  have r4: "returns fix_resource_form_lines (data f) = Inr (fix_resource_form_lines (data f))"
    by (simp add: returns_def)
  have r5: "(raises MemoryError :: string list \<Rightarrow> exn + string) ls = Inl MemoryError" for ls
    by (simp add: raises_def)
  note t1 = error_before_open_writes_nothing[OF h1 h2,
      where rewrite = "raises MemoryError" and rewrite_lines = "raises MemoryError"
        and join = "returns (join_with ''\<newline>'')" and e = MemoryError]
  note t2 = error_before_open_writes_nothing[OF h1 h2,
      where rewrite_lines = "returns fix_tests_lines" and join = "raises MemoryError"
        and e = MemoryError and ls = "fix_tests_lines (data f)"]
  note t3 = error_before_open_writes_nothing[OF h1 h2,
      where rewrite_lines = "returns fix_resource_form_lines" and join = "raises MemoryError"
        and e = MemoryError and ls = "fix_resource_form_lines (data f)"]
  have a: "mock_responses_update_with (raises MemoryError) resource_form_path w
      = (Inl MemoryError, w)"
    using t1 r1 by blast
  have b: "files (snd (fetch_mocks_update_with (raises MemoryError) resource_form_path w))
      = files w"
    using t1 r1 by blast
  have c: "fix_tests_fix_with (raises MemoryError) (returns (join_with ''\<newline>''))
      resource_form_path w = (Inl MemoryError, w)"
    using t1 r2 h4 by blast
  have d: "resource_form_with (raises MemoryError) (returns (join_with ''\<newline>'')) w
      = (Inl MemoryError, w)"
    using t1 r2 by blast
  have g: "fix_tests_fix_with (returns fix_tests_lines) (raises MemoryError) resource_form_path w
      = (Inl MemoryError, w\<lparr>files := (files w)(resource_form_path \<mapsto> f\<lparr>data := []\<rparr>)\<rparr>)"
    using t2 r3 r5 h3 h4 by blast
  have g': "resource_form_with (returns fix_resource_form_lines) (raises MemoryError) w
      = (Inl MemoryError, w\<lparr>files := (files w)(resource_form_path \<mapsto> f\<lparr>data := []\<rparr>)\<rparr>)"
    using t3 r4 r5 h3 by blast
  show ?thesis
    unfolding Let_def f_def[symmetric] w_def[symmetric]
    using h1 h2 h3 h4 a b c d g g' by blast
qed

section \<open>Claims about fix_setup_auth_mocks.py\<close>

lemma re_sub_changes:
  assumes r: "\<And>s n g x y. m s = Some (n, g) \<Longrightarrow> 0 < n \<and> r (take n s) g @ x \<noteq> take n s @ y"
    and s: "re_search m s"
  shows "re_sub m r s \<noteq> s"
  using s
proof (induction s)
  case Nil
  then obtain n g where "m [] = Some (n, g)" by auto
  then show ?case using r[of "[]" n g "[]" "[]"] by simp
next
  case (Cons c cs)
  show ?case
  proof (cases "m (c # cs)")
    case None
    then show ?thesis using Cons by simp
  next
    case (Some x)
    obtain n g where x: "x = (n, g)" by (cases x)
    from r[of "c # cs" n g "re_sub m r (drop (n - 1) cs)" "drop n (c # cs)"] Some x
    have n: "0 < n"
      and d: "r (take n (c # cs)) g @ re_sub m r (drop (n - 1) cs) \<noteq> take n (c # cs) @ drop n (c # cs)"
      by auto
    then show ?thesis using Some x by simp
  qed
qed

lemma third_starts:
  assumes "third = third1 \<or> third = third2 \<or> third = third3" and "third s = Some k"
  shows "0 < k \<and> s \<noteq> [] \<and> \<not> is_space (hd s) \<and> hd s \<noteq> CHR ''c''"
  using assms
  by (auto simp: third1_def third2_def third3_def is_space_def prefix_def Let_def
      split: if_splits)

lemma before_each_changes:
  assumes t: "third = third1 \<or> third = third2 \<or> third = third3"
    and m: "before_each_pattern third s = Some (n, g)"
  shows "0 < n \<and> insert_setup (take n s) g @ x \<noteq> take n s @ y"
proof -
  from m obtain r1 where s: "s = ''beforeEach(() => {'' @ r1"
    by (auto simp: before_each_pattern_def prefix_def split: if_splits)
  define ws where "ws = takeWhile is_space r1"
  define r2 where "r2 = dropWhile is_space r1"
  define g2 where "g2 = CHR ''\<newline>'' # rev (takeWhile (\<lambda>c. c \<noteq> CHR ''\<newline>'') (rev ws))"
  from m obtain k where k: "third r2 = Some k" and nl: "CHR ''\<newline>'' \<in> set ws"
    and n: "n = 18 + length ws + k" and g: "g = (''beforeEach(() => {'', g2, take k r2)"
    unfolding before_each_pattern_def s ws_def r2_def g2_def
    by (auto simp: Let_def split: if_splits option.splits)
  note ts = third_starts[OF t k]
  have r1: "r1 = ws @ r2" by (simp add: ws_def r2_def)
  have wsp: "\<forall>c\<in>set ws. is_space c" unfolding ws_def by (auto dest: set_takeWhileD)
  have "set (rev (takeWhile (\<lambda>c. c \<noteq> CHR ''\<newline>'') (rev ws))) \<subseteq> set ws"
    by (auto dest: set_takeWhileD)
  then have g2sp: "\<forall>c\<in>set g2. is_space c" using wsp nl by (auto simp: g2_def)
  define P where "P = ''beforeEach(() => {'' @ ws"
  have sP: "s = P @ r2" and nP: "n = length P + k" by (simp_all add: s r1 n P_def)
  have "take n s = P @ take k r2" unfolding sP nP by simp
  then have tk: "take n s = ''beforeEach(() => {'' @ ws @ take k r2"
    by (simp add: P_def)
  obtain h t' where hk: "take k r2 = h # t'" "\<not> is_space h" "h \<noteq> CHR ''c''"
    using ts by (cases r2; cases k) auto
  have "insert_setup (take n s) g @ x \<noteq> take n s @ y"
  proof
    assume "insert_setup (take n s) g @ x = take n s @ y"
    then have e: "g2 @ (''cleanupAuthMocks = setupAuthMocks();'' @ g2 @ take k r2 @ x)
        = ws @ (h # t' @ y)"
      unfolding tk g insert_setup_def hk by simp
    have "takeWhile is_space (g2 @ (''cleanupAuthMocks = setupAuthMocks();'' @ g2 @ take k r2 @ x)) = g2"
      using g2sp by (simp add: takeWhile_append2 is_space_def)
    moreover have "takeWhile is_space (ws @ (h # t' @ y)) = ws"
      using wsp hk(2) by (simp add: takeWhile_append2)
    ultimately have gw: "g2 = ws" using e by simp
    from e[unfolded gw]
    have "''cleanupAuthMocks = setupAuthMocks();'' @ ws @ take k r2 @ x = h # t' @ y"
      by (simp only: same_append_eq)
    then have "hd (''cleanupAuthMocks = setupAuthMocks();'' @ ws @ take k r2 @ x) = hd (h # t' @ y)"
      by (rule arg_cong)
    then show False using hk(3) by simp
  qed
  then show ?thesis using n by simp
qed

lemma sub_pattern_changes:
  "re_search (before_each_pattern third1) c \<Longrightarrow> sub_pattern1 c \<noteq> c"
  "re_search (before_each_pattern third2) c \<Longrightarrow> sub_pattern2 c \<noteq> c"
  "re_search (before_each_pattern third3) c \<Longrightarrow> sub_pattern3 c \<noteq> c"
  unfolding sub_pattern1_def sub_pattern2_def sub_pattern3_def
  by (rule re_sub_changes[OF before_each_changes]; simp)+

text \<open>
  C10. The three insertion patterns of \<open>fix_test_file\<close> are ordered fallbacks. The
  result is the substitution of pattern 1 when that changes the content; pattern 2 is
  applied only when pattern 1 changed nothing, and pattern 3 only when neither
  pattern 1 nor pattern 2 changed anything. A pattern that matches somewhere does
  change the content, so a pattern that changed nothing has inserted nothing: the
  result is the output of one single pattern on the original content, and at most
  one pattern family inserts the line.
\<close>

theorem setup_auth_patterns_are_ordered_fallbacks:
  "add_setup_auth_mocks c =
     (if sub_pattern1 c \<noteq> c then sub_pattern1 c
      else if sub_pattern2 c \<noteq> c then sub_pattern2 c
      else sub_pattern3 c)
   \<and> add_setup_auth_mocks c \<in> {sub_pattern1 c, sub_pattern2 c, sub_pattern3 c}
   \<and> (sub_pattern1 c = c \<longrightarrow> \<not> re_search (before_each_pattern third1) c)
   \<and> (sub_pattern2 c = c \<longrightarrow> \<not> re_search (before_each_pattern third2) c)
   \<and> (sub_pattern3 c = c \<longrightarrow> \<not> re_search (before_each_pattern third3) c)"
  using sub_pattern_changes[of c] by (auto simp: add_setup_auth_mocks_def Let_def)

theorem setup_auth_patterns_are_ordered_fallbacks_witness:
  "sub_pattern1 ''beforeEach(() => {\<newline>  vi.clearAllMocks();\<newline>  setupMswHandlers();''
     = ''beforeEach(() => {\<newline>  vi.clearAllMocks();\<newline>  setupMswHandlers();''
   \<and> \<not> re_search (before_each_pattern third1)
         ''beforeEach(() => {\<newline>  vi.clearAllMocks();\<newline>  setupMswHandlers();''
   \<and> sub_pattern2 ''beforeEach(() => {\<newline>  vi.clearAllMocks();\<newline>  setupMswHandlers();''
     = ''beforeEach(() => {\<newline>  cleanupAuthMocks = setupAuthMocks();\<newline>  vi.clearAllMocks();\<newline>  setupMswHandlers();''
   \<and> add_setup_auth_mocks ''beforeEach(() => {\<newline>  vi.clearAllMocks();\<newline>  setupMswHandlers();''
     = ''beforeEach(() => {\<newline>  cleanupAuthMocks = setupAuthMocks();\<newline>  vi.clearAllMocks();\<newline>  setupMswHandlers();''"
proof -
  have p1: "sub_pattern1 ''beforeEach(() => {\<newline>  vi.clearAllMocks();\<newline>  setupMswHandlers();''
     = ''beforeEach(() => {\<newline>  vi.clearAllMocks();\<newline>  setupMswHandlers();''"
    by (simp add: sub_pattern1_def before_each_pattern_def third1_def is_space_def)
  have p2: "sub_pattern2 ''beforeEach(() => {\<newline>  vi.clearAllMocks();\<newline>  setupMswHandlers();''
     = ''beforeEach(() => {\<newline>  cleanupAuthMocks = setupAuthMocks();\<newline>  vi.clearAllMocks();\<newline>  setupMswHandlers();''"
    by (simp add: sub_pattern2_def before_each_pattern_def third2_def is_space_def insert_setup_def)
  note t = setup_auth_patterns_are_ordered_fallbacks
      [of "''beforeEach(() => {\<newline>  vi.clearAllMocks();\<newline>  setupMswHandlers();''"]
  from t p1 have n1: "\<not> re_search (before_each_pattern third1)
         ''beforeEach(() => {\<newline>  vi.clearAllMocks();\<newline>  setupMswHandlers();''"
    by blast
  from t[THEN conjunct1] have a: "add_setup_auth_mocks ''beforeEach(() => {\<newline>  vi.clearAllMocks();\<newline>  setupMswHandlers();''
     = ''beforeEach(() => {\<newline>  cleanupAuthMocks = setupAuthMocks();\<newline>  vi.clearAllMocks();\<newline>  setupMswHandlers();''"
    unfolding p1 p2 by simp
  from p1 n1 p2 a show ?thesis by blast
qed

section \<open>Claims about the scan for the end of a block\<close>

text \<open>
  C7 does not hold of the code. In fix_resource_form_tests.py the lines of a block are
  collected in \<open>block_lines\<close> and reach \<open>fixed_lines\<close> only when the end of the block
  is found. When the counter is not zero on the line that holds
  \<open>as typeof global.fetch\<close>, the scan runs to the last line and the collected lines,
  the rest of the file, are lost: only the rewritten first line is written. This
  happens with two unclosed braces in the block (the counter is 1, 2, 1, 1 and never
  returns to zero), and also with a balanced block, since the opening brace on the
  line of \<open>mockImplementation\<close> is not counted and the counter is -1 at the end of
  the block. In fix_tests.py the lines behind \<open>function createWrapper()\<close> are dropped
  until the counter is negative; with an unclosed brace that never happens and every
  line to the end of the file is dropped.
\<close>

theorem unclosed_block_is_truncated:
  "fix_resource_form_content
     (''  global.fetch = vi.fn().mockImplementation(() => {\<newline>''
      @ ''  wrapFetchMock(vi);\<newline>''
      @ ''    if (first) {\<newline>''
      @ ''    if (second) {\<newline>''
      @ ''  }) as typeof global.fetch;\<newline>''
      @ ''  render(page);'')
   = ''  const mockFetch = vi.fn().mockImplementation(() => {''
   \<and> fix_resource_form_content
     (''  global.fetch = vi.fn().mockImplementation(() => {\<newline>''
      @ ''  wrapFetchMock(vi);\<newline>''
      @ ''    return Promise.resolve({ ok: true });\<newline>''
      @ ''  }) as typeof global.fetch;\<newline>''
      @ ''  render(page);'')
   = ''  const mockFetch = vi.fn().mockImplementation(() => {''
   \<and> fix_tests_content
     (''function createWrapper() {\<newline>''
      @ ''  return wrap({\<newline>''
      @ ''describe(suite, () => {\<newline>''
      @ ''  it(works);\<newline>''
      @ ''});'')
   = []"
proof -
  have a: "split_on CHR ''\<newline>''
     (''  global.fetch = vi.fn().mockImplementation(() => {\<newline>''
      @ ''  wrapFetchMock(vi);\<newline>''
      @ ''    if (first) {\<newline>''
      @ ''    if (second) {\<newline>''
      @ ''  }) as typeof global.fetch;\<newline>''
      @ ''  render(page);'')
    = [''  global.fetch = vi.fn().mockImplementation(() => {'',
       ''  wrapFetchMock(vi);'',
       ''    if (first) {'',
       ''    if (second) {'',
       ''  }) as typeof global.fetch;'',
       ''  render(page);'']"
    by simp
  have b: "fix_lines [''  global.fetch = vi.fn().mockImplementation(() => {'',
       ''  wrapFetchMock(vi);'',
       ''    if (first) {'',
       ''    if (second) {'',
       ''  }) as typeof global.fetch;'',
       ''  render(page);'']
    = [''  const mockFetch = vi.fn().mockImplementation(() => {'']"
    by (simp add: str_in_def sublist_Cons_right count_char_def Let_def)
  have a': "split_on CHR ''\<newline>''
     (''  global.fetch = vi.fn().mockImplementation(() => {\<newline>''
      @ ''  wrapFetchMock(vi);\<newline>''
      @ ''    return Promise.resolve({ ok: true });\<newline>''
      @ ''  }) as typeof global.fetch;\<newline>''
      @ ''  render(page);'')
    = [''  global.fetch = vi.fn().mockImplementation(() => {'',
       ''  wrapFetchMock(vi);'',
       ''    return Promise.resolve({ ok: true });'',
       ''  }) as typeof global.fetch;'',
       ''  render(page);'']"
    by simp
  have b': "fix_lines [''  global.fetch = vi.fn().mockImplementation(() => {'',
       ''  wrapFetchMock(vi);'',
       ''    return Promise.resolve({ ok: true });'',
       ''  }) as typeof global.fetch;'',
       ''  render(page);'']
    = [''  const mockFetch = vi.fn().mockImplementation(() => {'']"
    by (simp add: str_in_def sublist_Cons_right count_char_def Let_def)
  have c: "split_on CHR ''\<newline>''
     (''function createWrapper() {\<newline>''
      @ ''  return wrap({\<newline>''
      @ ''describe(suite, () => {\<newline>''
      @ ''  it(works);\<newline>''
      @ ''});'')
    = [''function createWrapper() {'', ''  return wrap({'',
       ''describe(suite, () => {'', ''  it(works);'', ''});'']"
    by simp
  have d: "new_lines (ft_loop ft_init
      [''function createWrapper() {'', ''  return wrap({'',
       ''describe(suite, () => {'', ''  it(works);'', ''});'']) = []"
    by (simp add: ft_init_def ft_step_def str_in_def sublist_Cons_right count_char_def Let_def)
  show ?thesis
    unfolding fix_resource_form_content_def fix_resource_form_lines_def
      fix_tests_content_def fix_tests_lines_def a b a' b' c d by simp
qed

end
